theory Spec2Isabelle
  imports Complex_Main
begin

section \<open>RANSAC line and plane fitting\<close>

text \<open>
  A shallow embedding of \<^verbatim>\<open>RANSAC_line.cpp\<close> and \<^verbatim>\<open>RANSAC_plane.cpp\<close>.

  Conventions of the embedding.
  \<^item> A C++ \<^verbatim>\<open>double\<close> is read as a real number, without NaN or infinities. The models
    and the distances keep every arithmetic expression of the source as written, with exact
    operations. \<^verbatim>\<open>FitLeastSquares\<close> compares a computed denominator with zero, and there
    the rounding decides which branch is taken: each of its operations is followed by the
    rounding of binary64 (to nearest, ties to even). The literals \<^verbatim>\<open>1e10\<close>, \<^verbatim>\<open>1e-9\<close> and
    \<^verbatim>\<open>1e-18\<close> are the reals \<open>10000000000\<close>, \<open>1 / 1000000000\<close> and \<open>1 / 10 ^ 18\<close>.
  \<^item> Storage that the source reads without having written it (the member \<^verbatim>\<open>normal\<close> of a
    \<^verbatim>\<open>PlaneModel\<close> that no constructor body has set) holds a value given from outside,
    \<open>junk\<close>.
  \<^item> A C++ \<^verbatim>\<open>int\<close> is an integer; container sizes are far below \<open>2 ^ 31\<close>, so the
    conversions between \<^verbatim>\<open>size_t\<close> and \<^verbatim>\<open>int\<close> of the source do not wrap.
  \<^item> \<^verbatim>\<open>std::vector\<close> is a list, \<^verbatim>\<open>push_back\<close> appends at the end.
  \<^item> A result that may not come back (a \<^verbatim>\<open>while\<close> loop that may spin forever) is an
    \<open>option\<close> with \<open>None\<close> for divergence; a crash of the process is the value \<open>Crash\<close>.
  \<^item> Randomness is an input: the values that \<^verbatim>\<open>rand()\<close> returns, and the permutations
    that \<^verbatim>\<open>std::shuffle\<close> produces, are given as functions of the call number.
\<close>

subsection \<open>RANSAC\_line.cpp: the line model\<close>

type_synonym point2d = "real \<times> real"

text \<open>\<^verbatim>\<open>class LineModel { double m = 0; double b = 0; ... }\<close>\<close>

record LineModel =
  line_m :: real
  line_b :: real

text \<open>\<^verbatim>\<open>LineModel() = default\<close>: both members take their initialisers.\<close>

definition LineModel_default :: LineModel where
  "LineModel_default = \<lparr>line_m = 0, line_b = 0\<rparr>"

text \<open>\<^verbatim>\<open>LineModel(p1, p2)\<close>: the slope through the two points, or \<^verbatim>\<open>1e10\<close>.\<close>

definition LineModel_of :: "point2d \<Rightarrow> point2d \<Rightarrow> LineModel" where
  "LineModel_of p1 p2 =
     (let m = (if fst p2 - fst p1 \<noteq> 0 then (snd p2 - snd p1) / (fst p2 - fst p1)
               else 10000000000)
      in \<lparr>line_m = m, line_b = snd p1 - m * fst p1\<rparr>)"

definition computeError :: "LineModel \<Rightarrow> point2d \<Rightarrow> real" where
  "computeError M pt = (let y_estimated = line_m M * fst pt + line_b M
                        in \<bar>y_estimated - snd pt\<bar>)"

subsection \<open>Double arithmetic\<close>

text \<open>\<open>2\<close> to an integer power.\<close>

definition pow2 :: "int \<Rightarrow> real" where
  "pow2 e = (if 0 \<le> e then 2 ^ nat e else 1 / 2 ^ nat (- e))"

text \<open>The integer nearest to \<open>q\<close>, the even one of the two when \<open>q\<close> lies halfway.\<close>

definition round_half_even :: "real \<Rightarrow> int" where
  "round_half_even q =
     (let f = \<lfloor>q\<rfloor>; d = q - of_int f
      in if d < 1 / 2 then f else if 1 / 2 < d then f + 1 else if even f then f else f + 1)"

text \<open>The exponent of the binade of \<open>x\<close>, not below that of the smallest normal number;
  numbers of the binade are multiples of \<open>2\<close> to that exponent minus \<open>52\<close>.\<close>

definition double_exponent :: "real \<Rightarrow> int" where
  "double_exponent x = max \<lfloor>log 2 \<bar>x\<bar>\<rfloor> (- 1022)"

text \<open>The double nearest to the real \<open>x\<close>. Numbers beyond the largest double, which
  round to an infinity, are not treated.\<close>

definition double_round :: "real \<Rightarrow> real" where
  "double_round x =
     (if x = 0 then 0
      else let ulp = pow2 (double_exponent x - 52)
           in of_int (round_half_even (x / ulp)) * ulp)"

text \<open>The four operations of the source on doubles: the exact result, rounded.\<close>

definition dadd :: "real \<Rightarrow> real \<Rightarrow> real" where
  "dadd a b = double_round (a + b)"

definition dsub :: "real \<Rightarrow> real \<Rightarrow> real" where
  "dsub a b = double_round (a - b)"

definition dmul :: "real \<Rightarrow> real \<Rightarrow> real" where
  "dmul a b = double_round (a * b)"

definition ddiv :: "real \<Rightarrow> real \<Rightarrow> real" where
  "ddiv a b = double_round (a / b)"

text \<open>The double nearest to \<open>0.7\<close>, which is what the literal \<^verbatim>\<open>0.7\<close> denotes.\<close>

definition d07 :: real where
  "d07 = 3152519739159347 / 4503599627370496"

lemma pow2_powr: "pow2 e = 2 powr (real_of_int e)"
proof (cases "0 \<le> e")
  case True
  then show ?thesis by (simp add: pow2_def powr_realpow [symmetric])
next
  case False
  then have r: "real (nat (- e)) = - real_of_int e" by simp
  have "(2 :: real) ^ nat (- e) = 2 powr (real (nat (- e)))" by (simp add: powr_realpow)
  also have "\<dots> = 2 powr (- real_of_int e)" by (simp only: r)
  finally have "(2 :: real) ^ nat (- e) = 1 / 2 powr (real_of_int e)"
    by (simp add: powr_minus_divide)
  with False show ?thesis by (simp add: pow2_def)
qed

lemma pow2_pos: "0 < pow2 e"
  by (simp add: pow2_powr)

lemma floor_log2_eq:
  assumes "pow2 e \<le> \<bar>x\<bar>" and "\<bar>x\<bar> < pow2 (e + 1)"
  shows "\<lfloor>log 2 \<bar>x\<bar>\<rfloor> = e"
proof -
  from assms(1) pow2_pos [of e] have pos: "0 < \<bar>x\<bar>" by linarith
  from assms(1) pos have "real_of_int e \<le> log 2 \<bar>x\<bar>"
    by (simp add: pow2_powr le_log_iff)
  moreover from assms(2) pos have "log 2 \<bar>x\<bar> < real_of_int e + 1"
    by (simp add: pow2_powr log_less_iff add.commute)
  ultimately show ?thesis by linarith
qed

lemma double_round_eval:
  assumes "pow2 e \<le> \<bar>x\<bar>" and "\<bar>x\<bar> < pow2 (e + 1)" and "- 1022 \<le> e"
  shows "double_round x = of_int (round_half_even (x / pow2 (e - 52))) * pow2 (e - 52)"
proof -
  from assms(1) pow2_pos [of e] have "x \<noteq> 0" by auto
  moreover have "double_exponent x = e"
    using floor_log2_eq [OF assms(1,2)] assms(3) by (simp add: double_exponent_def)
  ultimately show ?thesis by (simp add: double_round_def Let_def)
qed

lemma round_half_even_of_int [simp]: "round_half_even (of_int k) = k"
  by (simp add: round_half_even_def)

lemma double_round_of_int:
  assumes "\<bar>k\<bar> < 2 ^ 53"
  shows "double_round (of_int k) = of_int k"
proof (cases "k = 0")
  case True
  then show ?thesis by (simp add: double_round_def)
next
  case False
  define x :: real where "x = of_int k"
  define e where "e = \<lfloor>log 2 \<bar>x\<bar>\<rfloor>"
  from False have one: "1 \<le> \<bar>x\<bar>" by (auto simp: x_def)
  then have "0 \<le> log 2 \<bar>x\<bar>" by simp
  then have e0: "0 \<le> e" by (simp add: e_def)
  from assms have "\<bar>x\<bar> < 2 ^ 53" unfolding x_def
    by (metis of_int_abs of_int_less_numeral_power_cancel_iff)
  then have "\<bar>x\<bar> < 2 powr 53" by simp
  with one have "log 2 \<bar>x\<bar> < 53" by (simp add: log_less_iff)
  then have e52: "e \<le> 52" unfolding e_def by linarith
  have de: "double_exponent x = e" using e0 by (simp add: double_exponent_def e_def)
  have ulp: "pow2 (e - 52) = 1 / 2 ^ nat (52 - e)"
    using e52 by (cases "e = 52") (simp_all add: pow2_def)
  have "x / pow2 (e - 52) = of_int (k * 2 ^ nat (52 - e))"
    by (simp add: ulp x_def)
  then have "round_half_even (x / pow2 (e - 52)) = k * 2 ^ nat (52 - e)"
    by (simp only: round_half_even_of_int)
  then have "of_int (round_half_even (x / pow2 (e - 52))) * pow2 (e - 52) = x"
    by (simp add: ulp x_def)
  with one de show ?thesis by (auto simp: double_round_def x_def Let_def)
qed

lemma double_round_numeral:
  "numeral k < (2 :: int) ^ 53 \<Longrightarrow> double_round (numeral k) = numeral k"
  using double_round_of_int [of "numeral k"] by simp

lemma double_round_neg_numeral:
  "numeral k < (2 :: int) ^ 53 \<Longrightarrow> double_round (- numeral k) = - numeral k"
  using double_round_of_int [of "- numeral k"] by simp

lemma double_round_0: "double_round 0 = 0" by (simp add: double_round_def)
lemma double_round_1: "double_round 1 = 1" using double_round_of_int [of 1] by simp

lemmas double_small = dadd_def dsub_def dmul_def ddiv_def
  double_round_0 double_round_1 double_round_numeral double_round_neg_numeral

subsection \<open>RANSAC\_line.cpp: least squares\<close>

text \<open>The four running sums of \<^verbatim>\<open>FitLeastSquares\<close>, in the order
  \<^verbatim>\<open>(sumX, sumY, sumX2, sumXY)\<close>; one step of its \<^verbatim>\<open>for\<close> loop.\<close>

definition sums_step :: "point2d \<Rightarrow> real \<times> real \<times> real \<times> real \<Rightarrow> real \<times> real \<times> real \<times> real" where
  "sums_step pt acc =
     (case acc of (sumX, sumY, sumX2, sumXY) \<Rightarrow>
        (dadd sumX (fst pt), dadd sumY (snd pt),
         dadd sumX2 (dmul (fst pt) (fst pt)), dadd sumXY (dmul (fst pt) (snd pt))))"

definition FitLeastSquares :: "point2d list \<Rightarrow> LineModel" where
  "FitLeastSquares points =
     (case fold sums_step points (0, 0, 0, 0) of (sumX, sumY, sumX2, sumXY) \<Rightarrow>
        let n = real (length points);
            denom = dsub (dmul n sumX2) (dmul sumX sumX)
        in if denom = 0 then LineModel_default
           else let m = ddiv (dsub (dmul n sumXY) (dmul sumX sumY)) denom;
                    b = ddiv (dsub sumY (dmul m sumX)) n
                in \<lparr>line_m = m, line_b = b\<rparr>)"

subsection \<open>The ordinary-least-squares line, as the specification writes it\<close>

text \<open>The normal equations, with the sums taken over the whole consensus set and exact
  arithmetic: \<^verbatim>\<open>m = (n Sxy - Sx Sy) / (n Sxx - Sx^2)\<close> and \<^verbatim>\<open>b = (Sy - m Sx) / n\<close>.\<close>

definition ols_denom :: "point2d list \<Rightarrow> real" where
  "ols_denom ps = real (length ps) * (\<Sum>p\<leftarrow>ps. fst p * fst p) - (\<Sum>p\<leftarrow>ps. fst p) * (\<Sum>p\<leftarrow>ps. fst p)"

definition ols_m :: "point2d list \<Rightarrow> real" where
  "ols_m ps = (real (length ps) * (\<Sum>p\<leftarrow>ps. fst p * snd p) - (\<Sum>p\<leftarrow>ps. fst p) * (\<Sum>p\<leftarrow>ps. snd p))
                / ols_denom ps"

definition ols_b :: "point2d list \<Rightarrow> real" where
  "ols_b ps = ((\<Sum>p\<leftarrow>ps. snd p) - ols_m ps * (\<Sum>p\<leftarrow>ps. fst p)) / real (length ps)"

text \<open>In exact arithmetic the denominator of a non-empty set is zero exactly when all
  x-coordinates are equal.\<close>

lemma sum_sq_dev:
  fixes c :: real
  shows "sum_list (map (\<lambda>p. (fst p - c) * (fst p - c)) ps) =
           sum_list (map (\<lambda>p. fst p * fst p) ps) - 2 * c * sum_list (map fst ps)
             + real (length ps) * (c * c)"
  by (induction ps) (simp_all add: algebra_simps)

lemma ols_denom_zero_iff:
  fixes ps :: "point2d list"
  assumes "ps \<noteq> []"
  shows "ols_denom ps = 0 \<longleftrightarrow> (\<forall>p \<in> set ps. fst p = fst (hd ps))"
proof -
  define n where "n = real (length ps)"
  define mu where "mu = sum_list (map fst ps) / n"
  have n0: "n \<noteq> 0" using assms by (simp add: n_def)
  have sx: "sum_list (map fst ps) = n * mu" using n0 by (simp add: mu_def)
  have dev: "ols_denom ps = n * sum_list (map (\<lambda>p. (fst p - mu) * (fst p - mu)) ps)"
    unfolding ols_denom_def sum_sq_dev sx n_def [symmetric] by (simp add: algebra_simps)
  have zero: "sum_list (map (\<lambda>p. (fst p - mu) * (fst p - mu)) ps) = 0
                \<longleftrightarrow> (\<forall>p \<in> set ps. fst p = mu)"
    by (subst sum_list_nonneg_eq_0_iff) auto
  have "(\<forall>p \<in> set ps. fst p = mu) \<longleftrightarrow> (\<forall>p \<in> set ps. fst p = fst (hd ps))"
  proof
    assume all: "\<forall>p \<in> set ps. fst p = mu"
    with assms have "fst (hd ps) = mu" by simp
    with all show "\<forall>p \<in> set ps. fst p = fst (hd ps)" by simp
  next
    assume all: "\<forall>p \<in> set ps. fst p = fst (hd ps)"
    then have "map fst ps = replicate (length ps) (fst (hd ps))"
      by (simp add: map_replicate_const [symmetric] cong: map_cong)
    then have "sum_list (map fst ps) = n * fst (hd ps)"
      by (simp add: sum_list_replicate n_def)
    with n0 have "mu = fst (hd ps)" by (simp add: mu_def)
    with all show "\<forall>p \<in> set ps. fst p = mu" by simp
  qed
  with dev zero n0 show ?thesis by simp
qed

text \<open>
  Claim C9. For every pair of 2-D points the constructed line has slope
  \<open>(y2 - y1) / (x2 - x1)\<close> and intercept \<open>y1 - m x1\<close> when the x-coordinates differ; a
  vertical pair gets the finite slope \<open>10^10\<close> (and the intercept computed from it); and
  the error of any model at any point is the vertical distance \<open>|m x + b - y|\<close>, which
  is never negative.
\<close>

theorem LineModel_of_two_points:
  "(fst p1 \<noteq> fst p2 \<longrightarrow>
      line_m (LineModel_of p1 p2) = (snd p2 - snd p1) / (fst p2 - fst p1) \<and>
      line_b (LineModel_of p1 p2) = snd p1 - line_m (LineModel_of p1 p2) * fst p1) \<and>
   (fst p1 = fst p2 \<longrightarrow>
      line_m (LineModel_of p1 p2) = 10 ^ 10 \<and>
      line_b (LineModel_of p1 p2) = snd p1 - 10 ^ 10 * fst p1) \<and>
   computeError M pt = \<bar>line_m M * fst pt + line_b M - snd pt\<bar> \<and>
   0 \<le> computeError M pt"
  by (simp add: LineModel_of_def computeError_def Let_def)

theorem LineModel_of_two_points_witness:
  "line_m (LineModel_of (0, 1) (1, 3)) = 2 \<and> line_b (LineModel_of (0, 1) (1, 3)) = 1 \<and>
   line_m (LineModel_of (4, 1) (4, 3)) = 10 ^ 10 \<and>
   line_b (LineModel_of (4, 1) (4, 3)) = 1 - 10 ^ 10 * 4 \<and>
   computeError (LineModel_of (0, 1) (1, 3)) (2, 7) = 2"
  using LineModel_of_two_points [of "(0, 1)" "(1, 3)" "LineModel_of (0, 1) (1, 3)" "(2, 7)"]
        LineModel_of_two_points [of "(4, 1)" "(4, 3)" "LineModel_of (4, 1) (4, 3)" "(2, 7)"]
  by simp

text \<open>
  Claim C3 at two inputs where \<open>FitLeastSquares\<close> breaks it. The test \<^verbatim>\<open>denom == 0\<close> is made
  on the rounded denominator. For the three points \<open>(0.7, 0)\<close>, \<open>(0.7, 1)\<close>, \<open>(0.7, 5)\<close> all
  x-coordinates are equal and the exact denominator is zero, but the rounded one is
  \<open>2\<close> to the power \<open>- 50\<close>: the default model is not returned, and the division gives the
  slope \<open>4\<close>. For the three points \<open>(94906267, 1)\<close>, \<open>(94906268, 2)\<close>, \<open>(94906269, 3)\<close>,
  which lie on the line \<open>y = x - 94906266\<close>, the exact denominator is \<open>6\<close>, but the rounded
  one is zero: the default model is returned.
\<close>

theorem FitLeastSquares_rounded_guard:
  "ols_denom [(d07, 0), (d07, 1), (d07, 5)] = 0 \<and>
   FitLeastSquares [(d07, 0), (d07, 1), (d07, 5)]
     = \<lparr>line_m = 4, line_b = - (7205759403792789 / 9007199254740992)\<rparr> \<and>
   ols_denom [(94906267, 1), (94906268, 2), (94906269, 3)] = 6 \<and>
   ols_m [(94906267, 1), (94906268, 2), (94906269, 3)] = 1 \<and>
   ols_b [(94906267, 1), (94906268, 2), (94906269, 3)] = - 94906266 \<and>
   FitLeastSquares [(94906267, 1), (94906268, 2), (94906269, 3)] = LineModel_default"
proof -
  define u1 :: real where "u1 = 8827055269646171 / 18014398509481984"
  define u2 :: real where "u2 = 3152519739159347 / 2251799813685248"
  define u3 :: real where "u3 = 8827055269646171 / 9007199254740992"
  define u4 :: real where "u4 = 1182194902184755 / 562949953421312"
  define u5 :: real where "u5 = 1655072863058657 / 1125899906842624"
  define u6 :: real where "u6 = 7 / 2"
  define u7 :: real where "u7 = 4728779608739021 / 1125899906842624"
  define u8 :: real where "u8 = 4965218589175971 / 1125899906842624"
  define u9 :: real where "u9 = 2482609294587985 / 562949953421312"
  define u10 :: real where "u10 = 1 / 1125899906842624"
  define u11 :: real where "u11 = 1773292353277133 / 140737488355328"
  define u12 :: real where "u12 = 3546584706554265 / 281474976710656"
  define u13 :: real where "u13 = 1 / 281474976710656"
  define u14 :: real where "u14 = 1182194902184755 / 140737488355328"
  define u15 :: real where "u15 = - (337769972052787 / 140737488355328)"
  define u16 :: real where "u16 = - (7205759403792789 / 9007199254740992)"
  have a1: "dadd 0 d07 = d07"
    unfolding d07_def dadd_def
    by (subst double_round_eval [where e = "-1"]) (simp_all add: pow2_def round_half_even_def)
  have a2: "dadd 0 0 = 0"
    unfolding dadd_def by (simp add: double_round_0)
  have a3: "dmul d07 d07 = u1"
    unfolding d07_def dmul_def u1_def
    by (subst double_round_eval [where e = "-2"]) (simp_all add: pow2_def round_half_even_def)
  have a4: "dadd 0 u1 = u1"
    unfolding dadd_def u1_def
    by (subst double_round_eval [where e = "-2"]) (simp_all add: pow2_def round_half_even_def)
  have a5: "dmul d07 0 = 0"
    unfolding d07_def dmul_def by (simp add: double_round_0)
  have a6: "dadd d07 d07 = u2"
    unfolding d07_def dadd_def u2_def
    by (subst double_round_eval [where e = "0"]) (simp_all add: pow2_def round_half_even_def)
  have a7: "dadd 0 1 = 1"
    unfolding dadd_def by (simp add: double_round_1 double_round_numeral double_round_neg_numeral)
  have a8: "dadd u1 u1 = u3"
    unfolding dadd_def u1_def u3_def
    by (subst double_round_eval [where e = "-1"]) (simp_all add: pow2_def round_half_even_def)
  have a9: "dmul d07 1 = d07"
    unfolding d07_def dmul_def
    by (subst double_round_eval [where e = "-1"]) (simp_all add: pow2_def round_half_even_def)
  have a10: "dadd u2 d07 = u4"
    unfolding d07_def dadd_def u2_def u4_def
    by (subst double_round_eval [where e = "1"]) (simp_all add: pow2_def round_half_even_def)
  have a11: "dadd 1 5 = 6"
    unfolding dadd_def by (simp add: double_round_1 double_round_numeral double_round_neg_numeral)
  have a12: "dadd u3 u1 = u5"
    unfolding dadd_def u1_def u3_def u5_def
    by (subst double_round_eval [where e = "0"]) (simp_all add: pow2_def round_half_even_def)
  have a13: "dmul d07 5 = u6"
    unfolding d07_def dmul_def u6_def
    by (subst double_round_eval [where e = "1"]) (simp_all add: pow2_def round_half_even_def)
  have a14: "dadd d07 u6 = u7"
    unfolding d07_def dadd_def u6_def u7_def
    by (subst double_round_eval [where e = "2"]) (simp_all add: pow2_def round_half_even_def)
  have a15: "dmul 3 u5 = u8"
    unfolding dmul_def u5_def u8_def
    by (subst double_round_eval [where e = "2"]) (simp_all add: pow2_def round_half_even_def)
  have a16: "dmul u4 u4 = u9"
    unfolding dmul_def u4_def u9_def
    by (subst double_round_eval [where e = "2"]) (simp_all add: pow2_def round_half_even_def)
  have a17: "dsub u8 u9 = u10"
    unfolding dsub_def u10_def u8_def u9_def
    by (subst double_round_eval [where e = "-50"]) (simp_all add: pow2_def round_half_even_def)
  have a18: "dmul 3 u7 = u11"
    unfolding dmul_def u11_def u7_def
    by (subst double_round_eval [where e = "3"]) (simp_all add: pow2_def round_half_even_def)
  have a19: "dmul u4 6 = u12"
    unfolding dmul_def u12_def u4_def
    by (subst double_round_eval [where e = "3"]) (simp_all add: pow2_def round_half_even_def)
  have a20: "dsub u11 u12 = u13"
    unfolding dsub_def u11_def u12_def u13_def
    by (subst double_round_eval [where e = "-48"]) (simp_all add: pow2_def round_half_even_def)
  have a21: "ddiv u13 u10 = 4"
    unfolding ddiv_def u10_def u13_def by (simp add: double_round_1 double_round_numeral double_round_neg_numeral)
  have a22: "dmul 4 u4 = u14"
    unfolding dmul_def u14_def u4_def
    by (subst double_round_eval [where e = "3"]) (simp_all add: pow2_def round_half_even_def)
  have a23: "dsub 6 u14 = u15"
    unfolding dsub_def u14_def u15_def
    by (subst double_round_eval [where e = "1"]) (simp_all add: pow2_def round_half_even_def)
  have a24: "ddiv u15 3 = u16"
    unfolding ddiv_def u15_def u16_def
    by (subst double_round_eval [where e = "-1"]) (simp_all add: pow2_def round_half_even_def)
  have nz: "u10 \<noteq> 0" by (simp add: u10_def)
  have fit1: "FitLeastSquares [(d07, 0), (d07, 1), (d07, 5)] = \<lparr>line_m = 4, line_b = u16\<rparr>"
    by (simp add: FitLeastSquares_def sums_step_def Let_def nz
          a1 a2 a3 a4 a5 a6 a7 a8 a9 a10 a11 a12 a13 a14 a15 a16 a17 a18 a19 a20 a21 a22 a23 a24)
  have b1: "dadd 0 94906267 = 94906267"
    unfolding dadd_def by (simp add: double_round_1 double_round_numeral double_round_neg_numeral)
  have b2: "dadd 0 1 = 1"
    unfolding dadd_def by (simp add: double_round_1 double_round_numeral double_round_neg_numeral)
  have b3: "dmul 94906267 94906267 = 9007199515875288"
    unfolding dmul_def
    by (subst double_round_eval [where e = "53"]) (simp_all add: pow2_def round_half_even_def)
  have b4: "dadd 0 9007199515875288 = 9007199515875288"
    unfolding dadd_def
    by (subst double_round_eval [where e = "53"]) (simp_all add: pow2_def round_half_even_def)
  have b5: "dmul 94906267 1 = 94906267"
    unfolding dmul_def by (simp add: double_round_1 double_round_numeral double_round_neg_numeral)
  have b6: "dadd 94906267 94906268 = 189812535"
    unfolding dadd_def by (simp add: double_round_1 double_round_numeral double_round_neg_numeral)
  have b7: "dadd 1 2 = 3"
    unfolding dadd_def by (simp add: double_round_1 double_round_numeral double_round_neg_numeral)
  have b8: "dmul 94906268 94906268 = 9007199705687824"
    unfolding dmul_def
    by (subst double_round_eval [where e = "53"]) (simp_all add: pow2_def round_half_even_def)
  have b9: "dadd 9007199515875288 9007199705687824 = 18014399221563112"
    unfolding dadd_def
    by (subst double_round_eval [where e = "54"]) (simp_all add: pow2_def round_half_even_def)
  have b10: "dmul 94906268 2 = 189812536"
    unfolding dmul_def by (simp add: double_round_1 double_round_numeral double_round_neg_numeral)
  have b11: "dadd 94906267 189812536 = 284718803"
    unfolding dadd_def by (simp add: double_round_1 double_round_numeral double_round_neg_numeral)
  have b12: "dadd 189812535 94906269 = 284718804"
    unfolding dadd_def by (simp add: double_round_1 double_round_numeral double_round_neg_numeral)
  have b13: "dadd 3 3 = 6"
    unfolding dadd_def by (simp add: double_round_1 double_round_numeral double_round_neg_numeral)
  have b14: "dmul 94906269 94906269 = 9007199895500360"
    unfolding dmul_def
    by (subst double_round_eval [where e = "53"]) (simp_all add: pow2_def round_half_even_def)
  have b15: "dadd 18014399221563112 9007199895500360 = 27021599117063472"
    unfolding dadd_def
    by (subst double_round_eval [where e = "54"]) (simp_all add: pow2_def round_half_even_def)
  have b16: "dmul 94906269 3 = 284718807"
    unfolding dmul_def by (simp add: double_round_1 double_round_numeral double_round_neg_numeral)
  have b17: "dadd 284718803 284718807 = 569437610"
    unfolding dadd_def by (simp add: double_round_1 double_round_numeral double_round_neg_numeral)
  have b18: "dmul 3 27021599117063472 = 81064797351190416"
    unfolding dmul_def
    by (subst double_round_eval [where e = "56"]) (simp_all add: pow2_def round_half_even_def)
  have b19: "dmul 284718804 284718804 = 81064797351190416"
    unfolding dmul_def
    by (subst double_round_eval [where e = "56"]) (simp_all add: pow2_def round_half_even_def)
  have b20: "dsub 81064797351190416 81064797351190416 = 0"
    unfolding dsub_def by (simp add: double_round_0)
  have fit2: "FitLeastSquares [(94906267, 1), (94906268, 2), (94906269, 3)] = LineModel_default"
    by (simp add: FitLeastSquares_def sums_step_def Let_def
          b1 b2 b3 b4 b5 b6 b7 b8 b9 b10 b11 b12 b13 b14 b15 b16 b17 b18 b19 b20)
  have exact1: "ols_denom [(d07, 0), (d07, 1), (d07, 5)] = 0"
    by (simp add: ols_denom_def)
  have exact2: "ols_denom [(94906267, 1), (94906268, 2), (94906269, 3)] = 6"
    by (simp add: ols_denom_def)
  have exact3: "ols_m [(94906267, 1), (94906268, 2), (94906269, 3)] = 1"
    by (simp add: ols_m_def exact2)
  have exact4: "ols_b [(94906267, 1), (94906268, 2), (94906269, 3)] = - 94906266"
    by (simp add: ols_b_def exact3)
  show ?thesis
    by (simp add: fit1 fit2 exact1 exact2 exact3 exact4 u16_def)
qed


subsection \<open>RANSAC\_line.cpp: the controller\<close>

text \<open>\<^verbatim>\<open>class RANSAC { Vec<Pair<double, double>> data; double tolerance;
  int max_iterations; int threshold; ... }\<close>\<close>

record RANSAC_line =
  line_data :: "point2d list"
  line_tolerance :: real
  line_max_iterations :: int
  line_threshold :: int

datatype 'a outcome = Crash | Finished 'a

text \<open>The locals of \<^verbatim>\<open>run\<close> that live across iterations, and the number of calls of
  \<^verbatim>\<open>rand()\<close> made so far: the \<open>k\<close>-th call returns \<open>rnd k\<close>.\<close>

record line_state =
  bestModel :: LineModel
  bestInLiers :: int
  rand_calls :: nat

text \<open>The inner loop of line 77:
  \<^verbatim>\<open>for (const auto &pt : data) if (model.computeError(pt) < tolerance) consensus_set.push_back(pt);\<close>\<close>

definition consensus_line :: "point2d list \<Rightarrow> real \<Rightarrow> LineModel \<Rightarrow> point2d list" where
  "consensus_line ps tol model =
     fold (\<lambda>pt consensus_set. if computeError model pt < tol then consensus_set @ [pt]
                               else consensus_set) ps []"

text \<open>The loop of line 72:
  \<^verbatim>\<open>while (pt1.first == pt2.first && pt1.second == pt2.second)
    Pair<double, double> pt2 = data[rand() % data.size()];\<close>
  The body declares a new \<^verbatim>\<open>pt2\<close>, local to the body; the \<^verbatim>\<open>pt2\<close> of the condition is the
  outer one and is never assigned. Each pass calls \<^verbatim>\<open>rand()\<close> once. The result is the
  number of \<^verbatim>\<open>rand()\<close> calls made when the loop is left, \<open>None\<close> when it is never left.\<close>

partial_function (option) resample ::
  "(nat \<Rightarrow> nat) \<Rightarrow> point2d list \<Rightarrow> point2d \<Rightarrow> point2d \<Rightarrow> nat \<Rightarrow> nat option" where
  "resample rnd ps pt1 pt2 k =
     (if fst pt1 = fst pt2 \<and> snd pt1 = snd pt2
      then (let pt2_inner = ps ! (rnd k mod length ps)
            in resample rnd ps pt1 pt2 (Suc k))
      else Some k)"

text \<open>One pass of the body of the \<^verbatim>\<open>for\<close> loop of \<^verbatim>\<open>run\<close>. \<^verbatim>\<open>rand() % data.size()\<close> on an
  empty vector is an integer division by zero, which ends the process. The pass returns
  whether it left the loop through \<^verbatim>\<open>break\<close>, and the locals after it.\<close>

definition line_body ::
  "RANSAC_line \<Rightarrow> (nat \<Rightarrow> nat) \<Rightarrow> line_state \<Rightarrow> (bool \<times> line_state) outcome option" where
  "line_body R rnd st =
     (if length (line_data R) = 0 then Some Crash
      else
        let k = rand_calls st;
            pt1 = line_data R ! (rnd k mod length (line_data R));
            pt2 = line_data R ! (rnd (k + 1) mod length (line_data R))
        in case resample rnd (line_data R) pt1 pt2 (k + 2) of
             None \<Rightarrow> None
           | Some k' \<Rightarrow>
               let model = LineModel_of pt1 pt2;
                   consensus_set = consensus_line (line_data R) (line_tolerance R) model;
                   st1 = (if int (length consensus_set) > bestInLiers st
                          then st\<lparr>bestInLiers := int (length consensus_set),
                                  bestModel := FitLeastSquares consensus_set\<rparr>
                          else st);
                   st2 = st1\<lparr>rand_calls := k'\<rparr>
               in Some (Finished (bestInLiers st2 \<ge> line_threshold R, st2)))"

text \<open>\<^verbatim>\<open>for (int i = 0; i < max_iterations; i++) { ... }\<close> from the counter \<open>i\<close> on. The
  result holds the value of \<open>i\<close> when the loop was left, whether it was left through
  \<^verbatim>\<open>break\<close>, and the locals.\<close>

function line_loop ::
  "RANSAC_line \<Rightarrow> (nat \<Rightarrow> nat) \<Rightarrow> int \<Rightarrow> line_state \<Rightarrow> (int \<times> bool \<times> line_state) outcome option" where
  "line_loop R rnd i st =
     (if i < line_max_iterations R then
        (case line_body R rnd st of
           None \<Rightarrow> None
         | Some Crash \<Rightarrow> Some Crash
         | Some (Finished (brk, st')) \<Rightarrow>
             if brk then Some (Finished (i, True, st')) else line_loop R rnd (i + 1) st')
      else Some (Finished (i, False, st)))"
  by pat_completeness auto
termination
  by (relation "measure (\<lambda>(R, rnd, i, st). nat (line_max_iterations R - i))") auto

definition line_init :: line_state where
  "line_init = \<lparr>bestModel = LineModel_default, bestInLiers = 0, rand_calls = 0\<rparr>"

text \<open>\<^verbatim>\<open>LineModel run()\<close>: \<open>None\<close> when it never returns, \<open>Some Crash\<close> when the process
  dies, \<open>Some (Finished M)\<close> when it returns the model \<open>M\<close>.\<close>

definition run_line :: "RANSAC_line \<Rightarrow> (nat \<Rightarrow> nat) \<Rightarrow> LineModel outcome option" where
  "run_line R rnd =
     (case line_loop R rnd 0 line_init of
        None \<Rightarrow> None
      | Some Crash \<Rightarrow> Some Crash
      | Some (Finished (i, brk, st)) \<Rightarrow> Some (Finished (bestModel st)))"


subsection \<open>RANSAC\_plane.cpp: vectors\<close>

text \<open>\<^verbatim>\<open>using Point3d = Eigen::Vector3d\<close>, with the operations of Eigen that the source
  calls. \<^verbatim>\<open>normalized()\<close> divides by the norm when the squared norm is positive and
  returns the vector unchanged otherwise.\<close>

datatype Point3d = Point3d (x_of: real) (y_of: real) (z_of: real)

definition Zero3 :: Point3d where
  "Zero3 = Point3d 0 0 0"

definition plus3 :: "Point3d \<Rightarrow> Point3d \<Rightarrow> Point3d" where
  "plus3 u v = Point3d (x_of u + x_of v) (y_of u + y_of v) (z_of u + z_of v)"

definition minus3 :: "Point3d \<Rightarrow> Point3d \<Rightarrow> Point3d" where
  "minus3 u v = Point3d (x_of u - x_of v) (y_of u - y_of v) (z_of u - z_of v)"

definition neg3 :: "Point3d \<Rightarrow> Point3d" where
  "neg3 u = Point3d (- x_of u) (- y_of u) (- z_of u)"

definition div3 :: "Point3d \<Rightarrow> real \<Rightarrow> Point3d" where
  "div3 u s = Point3d (x_of u / s) (y_of u / s) (z_of u / s)"

definition dot :: "Point3d \<Rightarrow> Point3d \<Rightarrow> real" where
  "dot u v = x_of u * x_of v + y_of u * y_of v + z_of u * z_of v"

definition cross :: "Point3d \<Rightarrow> Point3d \<Rightarrow> Point3d" where
  "cross u v = Point3d (y_of u * z_of v - z_of u * y_of v)
                       (z_of u * x_of v - x_of u * z_of v)
                       (x_of u * y_of v - y_of u * x_of v)"

definition squaredNorm :: "Point3d \<Rightarrow> real" where
  "squaredNorm u = dot u u"

definition norm3 :: "Point3d \<Rightarrow> real" where
  "norm3 u = sqrt (squaredNorm u)"

definition normalized :: "Point3d \<Rightarrow> Point3d" where
  "normalized u = (let z = squaredNorm u in if z > 0 then div3 u (sqrt z) else u)"

subsection \<open>RANSAC\_plane.cpp: the plane model\<close>

text \<open>\<^verbatim>\<open>class PlaneModel { double a = 0, b = 0, c = 0, d = 0; Point3d normal; ... }\<close>\<close>

record PlaneModel =
  plane_a :: real
  plane_b :: real
  plane_c :: real
  plane_d :: real
  normal :: Point3d

text \<open>The expression \<^verbatim>\<open>PlaneModel()\<close>. The members \<^verbatim>\<open>a, b, c, d\<close> take their initialisers.
  \<^verbatim>\<open>Point3d normal;\<close> has none, and the default constructor of an Eigen vector writes
  nothing: the member holds whatever its storage holds, here the argument \<open>junk\<close>.\<close>

definition PlaneModel_default :: "Point3d \<Rightarrow> PlaneModel" where
  "PlaneModel_default junk =
     \<lparr>plane_a = 0, plane_b = 0, plane_c = 0, plane_d = 0, normal = junk\<rparr>"

text \<open>\<^verbatim>\<open>PlaneModel(pt1, pt2, pt3)\<close>. Here too \<^verbatim>\<open>normal\<close> starts with whatever its storage
  holds, and the early \<^verbatim>\<open>return\<close> of the degenerate case leaves it so.\<close>

definition PlaneModel_of3 :: "Point3d \<Rightarrow> Point3d \<Rightarrow> Point3d \<Rightarrow> Point3d \<Rightarrow> PlaneModel" where
  "PlaneModel_of3 junk pt1 pt2 pt3 =
     (let V1 = minus3 pt2 pt1;
          V2 = minus3 pt3 pt1;
          cross_product = cross V1 V2
      in if norm3 cross_product < 1 / 1000000000
         then \<lparr>plane_a = 0, plane_b = 0, plane_c = 0, plane_d = 0, normal = junk\<rparr>
         else let n = normalized cross_product
              in \<lparr>plane_a = x_of n, plane_b = y_of n, plane_c = z_of n,
                  plane_d = - dot n pt1, normal = n\<rparr>)"

text \<open>\<^verbatim>\<open>PlaneModel(normal_vec, centroid)\<close>\<close>

definition PlaneModel_of2 :: "Point3d \<Rightarrow> Point3d \<Rightarrow> PlaneModel" where
  "PlaneModel_of2 normal_vec centroid =
     (let n = normalized normal_vec
      in \<lparr>plane_a = x_of n, plane_b = y_of n, plane_c = z_of n,
          plane_d = - dot n centroid, normal = n\<rparr>)"

definition computeDistance :: "PlaneModel \<Rightarrow> Point3d \<Rightarrow> real" where
  "computeDistance M pt =
     (if plane_a M * plane_a M + plane_b M * plane_b M + plane_c M * plane_c M < 1 / 10 ^ 18
      then 10000000000
      else \<bar>plane_a M * x_of pt + plane_b M * y_of pt + plane_c M * z_of pt + plane_d M\<bar>)"

definition isValid :: "PlaneModel \<Rightarrow> bool" where
  "isValid M \<longleftrightarrow> norm3 (normal M) > 1 / 1000000000"

subsection \<open>RANSAC\_plane.cpp: the controller\<close>

text \<open>\<^verbatim>\<open>class RANSAC { Vec<Point3d> data; double error_tolerance; int max_iterations;
  int min_consensus; std::mt19937 rng; ... }\<close>. The generator is replaced by what it is
  used for, see \<open>plane_env\<close>.\<close>

record RANSAC_plane =
  plane_data :: "Point3d list"
  error_tolerance :: real
  plane_max_iterations :: int
  min_consensus :: int

text \<open>What the controller takes from outside the source file:
  \<^item> \<open>shuffled i\<close>: the index vector after \<^verbatim>\<open>std::shuffle\<close> in iteration \<open>i\<close>, a
    permutation of \<open>0, ..., data.size() - 1\<close>;
  \<^item> \<open>svd_V_col2 rows\<close>: column 2 of the matrix \<open>V\<close> that \<^verbatim>\<open>Eigen::JacobiSVD\<close> computes for
    the matrix with the given rows;
  \<^item> \<open>junk\<close>: the contents of the storage of a \<^verbatim>\<open>normal\<close> member that nothing has
    written.\<close>

record plane_env =
  shuffled :: "nat \<Rightarrow> nat list"
  svd_V_col2 :: "Point3d list \<Rightarrow> Point3d"
  junk :: Point3d

definition fitModel :: "plane_env \<Rightarrow> Point3d list \<Rightarrow> PlaneModel" where
  "fitModel E consensus_set =
     (if length consensus_set < 3 then PlaneModel_default (junk E)
      else
        let centroid = div3 (fold (\<lambda>pt c. plus3 c pt) consensus_set Zero3)
                            (real (length consensus_set));
            centered_data = map (\<lambda>pt. minus3 pt centroid) consensus_set;
            normal_vector = svd_V_col2 E centered_data;
            normal_vector = (if dot normal_vector centroid > 0 then neg3 normal_vector
                             else normal_vector)
        in PlaneModel_of2 normal_vector centroid)"

definition getConsensusSet :: "RANSAC_plane \<Rightarrow> PlaneModel \<Rightarrow> Point3d list" where
  "getConsensusSet R model =
     (if \<not> isValid model then []
      else fold (\<lambda>pt consensus_set.
                   if computeDistance model pt < error_tolerance R then consensus_set @ [pt]
                   else consensus_set) (plane_data R) [])"

definition areCollinear :: "Point3d \<Rightarrow> Point3d \<Rightarrow> Point3d \<Rightarrow> bool" where
  "areCollinear p1 p2 p3 =
     (let v1 = minus3 p2 p1; v2 = minus3 p3 p1 in norm3 (cross v1 v2) < 1 / 1000000000)"

text \<open>Integer division of C++: the quotient is truncated towards zero.\<close>

definition cpp_div :: "int \<Rightarrow> int \<Rightarrow> int" where
  "cpp_div a b = sgn a * sgn b * (\<bar>a\<bar> div \<bar>b\<bar>)"


text \<open>The locals of \<^verbatim>\<open>run\<close> that live across iterations.\<close>

record plane_state =
  bestInliersCount :: int
  bestConsensusSet :: "Point3d list"
  attempts_without_improvement :: int

text \<open>The search for three non-collinear points, from the counter \<open>attempt\<close> on:
  \<^verbatim>\<open>for (int attempt = 0; attempt < std::min(10, (int)data.size() - 2); attempt++) { ... }\<close>.
  The result is \<open>Some currentModel\<close> when \<^verbatim>\<open>found_valid_sample\<close> is set, \<open>None\<close> otherwise.\<close>

function find_sample :: "plane_env \<Rightarrow> Point3d list \<Rightarrow> nat list \<Rightarrow> int \<Rightarrow> PlaneModel option" where
  "find_sample E ps indices attempt =
     (if attempt < min 10 (int (length ps) - 2) then
        if length indices < 3 then None
        else
          let p1 = ps ! (indices ! nat attempt);
              p2 = ps ! (indices ! nat (attempt + 1));
              p3 = ps ! (indices ! nat (attempt + 2))
          in if \<not> areCollinear p1 p2 p3
             then let currentModel = PlaneModel_of3 (junk E) p1 p2 p3
                  in if isValid currentModel then Some currentModel
                     else find_sample E ps indices (attempt + 1)
             else find_sample E ps indices (attempt + 1)
      else None)"
  by pat_completeness auto
termination
  by (relation "measure (\<lambda>(E, ps, indices, attempt). nat (min 10 (int (length ps) - 2) - attempt))")
     auto

text \<open>One pass of the body of the main loop, in iteration \<open>i\<close>; \<open>max_attempts\<close> is the
  constant \<^verbatim>\<open>max_attempts_without_improvement\<close>. The pass returns whether it left the loop
  through \<^verbatim>\<open>break\<close>, and the locals after it; \<^verbatim>\<open>continue\<close> leaves the locals as they
  were.\<close>

definition plane_body ::
  "RANSAC_plane \<Rightarrow> plane_env \<Rightarrow> int \<Rightarrow> int \<Rightarrow> plane_state \<Rightarrow> bool \<times> plane_state" where
  "plane_body R E max_attempts i st =
     (let indices = shuffled E (nat i)
      in case find_sample E (plane_data R) indices 0 of
           None \<Rightarrow> (False, st)
         | Some currentModel \<Rightarrow>
             let currentConsensusSet = getConsensusSet R currentModel;
                 st' = (if int (length currentConsensusSet) > bestInliersCount st
                        then st\<lparr>bestInliersCount := int (length currentConsensusSet),
                                bestConsensusSet := currentConsensusSet,
                                attempts_without_improvement := 0\<rparr>
                        else st\<lparr>attempts_without_improvement :=
                                  attempts_without_improvement st + 1\<rparr>)
             in (bestInliersCount st' \<ge> min_consensus R \<and>
                 attempts_without_improvement st' > max_attempts, st'))"

text \<open>\<^verbatim>\<open>for (int i = 0; i < max_iterations; i++) { ... }\<close> from the counter \<open>i\<close> on. The
  result holds the value of \<open>i\<close> when the loop was left, whether it was left through
  \<^verbatim>\<open>break\<close>, and the locals.\<close>

function plane_loop ::
  "RANSAC_plane \<Rightarrow> plane_env \<Rightarrow> int \<Rightarrow> int \<Rightarrow> plane_state \<Rightarrow> int \<times> bool \<times> plane_state" where
  "plane_loop R E max_attempts i st =
     (if i < plane_max_iterations R then
        (case plane_body R E max_attempts i st of
           (brk, st') \<Rightarrow>
             if brk then (i, True, st') else plane_loop R E max_attempts (i + 1) st')
      else (i, False, st))"
  by pat_completeness auto
termination
  by (relation "measure (\<lambda>(R, E, ma, i, st). nat (plane_max_iterations R - i))") auto

definition plane_init :: plane_state where
  "plane_init = \<lparr>bestInliersCount = 0, bestConsensusSet = [], attempts_without_improvement = 0\<rparr>"

text \<open>\<^verbatim>\<open>PlaneModel run()\<close>\<close>

definition run_plane :: "RANSAC_plane \<Rightarrow> plane_env \<Rightarrow> PlaneModel" where
  "run_plane R E =
     (if length (plane_data R) < 3 then PlaneModel_default (junk E)
      else
        let max_attempts_without_improvement = cpp_div (plane_max_iterations R) 4
        in case plane_loop R E max_attempts_without_improvement 0 plane_init of
             (i, brk, st) \<Rightarrow>
               if bestConsensusSet st \<noteq> [] \<and> length (bestConsensusSet st) \<ge> 3
               then let finalModel = fitModel E (bestConsensusSet st)
                    in if isValid finalModel then finalModel else PlaneModel_default (junk E)
               else PlaneModel_default (junk E))"

text \<open>\<^verbatim>\<open>double evaluateModel(const PlaneModel& model) const\<close>: the loop keeps the pair
  \<^verbatim>\<open>(total_error, inlier_count)\<close>.\<close>

definition evaluateModel :: "RANSAC_plane \<Rightarrow> PlaneModel \<Rightarrow> real" where
  "evaluateModel R model =
     (if \<not> isValid model then 10000000000
      else
        case fold (\<lambda>pt (total_error, inlier_count).
                     let dist = computeDistance model pt
                     in if dist < error_tolerance R then (total_error + dist, inlier_count + 1)
                        else (total_error, inlier_count))
                  (plane_data R) (0, 0 :: int) of
          (total_error, inlier_count) \<Rightarrow>
            if inlier_count = 0 then 10000000000
            else total_error / real_of_int inlier_count)"


subsection \<open>Facts about the line controller\<close>

lemma consensus_line_acc:
  "fold (\<lambda>pt consensus_set. if computeError model pt < tol then consensus_set @ [pt]
                               else consensus_set) ps acc
     = acc @ filter (\<lambda>pt. computeError model pt < tol) ps"
  by (induction ps arbitrary: acc) simp_all

lemma consensus_line_filter:
  "consensus_line ps tol model = filter (\<lambda>pt. computeError model pt < tol) ps"
  by (simp add: consensus_line_def consensus_line_acc)

lemma resample_returns:
  assumes "resample rnd ps pt1 pt2 k = Some k'"
  shows "\<not> (fst pt1 = fst pt2 \<and> snd pt1 = snd pt2) \<and> k' = k"
  by (rule resample.raw_induct
        [where P = "\<lambda>rnd ps pt1 pt2 k y. \<not> (fst pt1 = fst pt2 \<and> snd pt1 = snd pt2) \<and> y = k",
         OF _ assms])
     (auto split: if_splits simp: Let_def)

lemma resample_same: "resample rnd ps pt pt k = None"
  using resample_returns [of rnd ps pt pt k] by (cases "resample rnd ps pt pt k") auto

lemma resample_distinct:
  "\<not> (fst pt1 = fst pt2 \<and> snd pt1 = snd pt2) \<Longrightarrow> resample rnd ps pt1 pt2 k = Some k"
  by (subst resample.simps) auto

lemma resample_cases:
  "resample rnd ps pt1 pt2 k = (if pt1 = pt2 then None else Some k)"
proof (cases "pt1 = pt2")
  case True
  then show ?thesis by (simp add: resample_same)
next
  case False
  then show ?thesis by (simp add: resample_distinct prod_eq_iff)
qed

text \<open>The two points that an iteration draws, and the consensus set of the line through
  them, as functions of the locals before the iteration.\<close>

definition line_sample :: "RANSAC_line \<Rightarrow> (nat \<Rightarrow> nat) \<Rightarrow> line_state \<Rightarrow> point2d \<times> point2d" where
  "line_sample R rnd st =
     (line_data R ! (rnd (rand_calls st) mod length (line_data R)),
      line_data R ! (rnd (rand_calls st + 1) mod length (line_data R)))"

definition line_candidate_set :: "RANSAC_line \<Rightarrow> (nat \<Rightarrow> nat) \<Rightarrow> line_state \<Rightarrow> point2d list" where
  "line_candidate_set R rnd st =
     (case line_sample R rnd st of (pt1, pt2) \<Rightarrow>
        consensus_line (line_data R) (line_tolerance R) (LineModel_of pt1 pt2))"

lemma line_body_unfold:
  "line_body R rnd st =
     (if line_data R = [] then Some Crash
      else if fst (line_sample R rnd st) = snd (line_sample R rnd st) then None
      else let cs = line_candidate_set R rnd st;
               st' = (if int (length cs) > bestInLiers st
                      then st\<lparr>bestInLiers := int (length cs), bestModel := FitLeastSquares cs,
                              rand_calls := rand_calls st + 2\<rparr>
                      else st\<lparr>rand_calls := rand_calls st + 2\<rparr>)
           in Some (Finished (bestInLiers st' \<ge> line_threshold R, st')))"
  by (simp add: line_body_def line_sample_def line_candidate_set_def resample_cases Let_def)

lemma line_sample_in_data:
  "line_data R \<noteq> [] \<Longrightarrow>
     fst (line_sample R rnd st) \<in> set (line_data R) \<and> snd (line_sample R rnd st) \<in> set (line_data R)"
  by (simp add: line_sample_def)

lemma line_body_step:
  assumes "line_body R rnd st = Some (Finished (brk, st'))"
  shows "bestInLiers st \<le> bestInLiers st'"
    and "bestModel st' \<noteq> bestModel st \<or> bestInLiers st' \<noteq> bestInLiers st \<Longrightarrow>
           bestInLiers st < int (length (line_candidate_set R rnd st)) \<and>
           bestInLiers st' = int (length (line_candidate_set R rnd st)) \<and>
           bestModel st' = FitLeastSquares (line_candidate_set R rnd st)"
    and "brk \<longleftrightarrow> line_threshold R \<le> bestInLiers st'"
  using assms by (auto simp: line_body_unfold Let_def split: if_splits)

lemma line_loop_mono:
  "line_loop R rnd i st = Some (Finished (j, brk, st')) \<Longrightarrow> bestInLiers st \<le> bestInLiers st'"
proof (induction R rnd i st rule: line_loop.induct)
  case (1 R rnd i st)
  show ?case
  proof (cases "i < line_max_iterations R")
    case False
    with "1.prems" show ?thesis by simp
  next
    case True
    with "1.prems" obtain b s where body: "line_body R rnd st = Some (Finished (b, s))"
      by (auto split: option.splits outcome.splits)
    have le: "bestInLiers st \<le> bestInLiers s" using line_body_step(1) [OF body] .
    show ?thesis
    proof (cases b)
      case True
      with "1.prems" body \<open>i < line_max_iterations R\<close> le show ?thesis by simp
    next
      case False
      with "1.prems" body \<open>i < line_max_iterations R\<close>
      have "line_loop R rnd (i + 1) s = Some (Finished (j, brk, st'))" by simp
      with "1.IH" [OF \<open>i < line_max_iterations R\<close> body refl refl False]
      have "bestInLiers s \<le> bestInLiers st'" by simp
      with le show ?thesis by simp
    qed
  qed
qed


lemma line_loop_exit:
  "line_loop R rnd i st = Some (Finished (j, brk, st')) \<Longrightarrow>
     (brk \<longrightarrow> i \<le> j \<and> j < line_max_iterations R \<and> line_threshold R \<le> bestInLiers st') \<and>
     (\<not> brk \<longrightarrow> line_max_iterations R \<le> j \<and>
                (i < line_max_iterations R \<longrightarrow> bestInLiers st' < line_threshold R))"
proof (induction R rnd i st rule: line_loop.induct)
  case (1 R rnd i st)
  show ?case
  proof (cases "i < line_max_iterations R")
    case False
    with "1.prems" show ?thesis by simp
  next
    case True
    with "1.prems" obtain b s where body: "line_body R rnd st = Some (Finished (b, s))"
      by (auto split: option.splits outcome.splits)
    have b: "b \<longleftrightarrow> line_threshold R \<le> bestInLiers s" using line_body_step(3) [OF body] .
    show ?thesis
    proof (cases b)
      case True
      with "1.prems" body \<open>i < line_max_iterations R\<close> b show ?thesis by auto
    next
      case False
      with "1.prems" body \<open>i < line_max_iterations R\<close>
      have next_loop: "line_loop R rnd (i + 1) s = Some (Finished (j, brk, st'))" by simp
      note IH = "1.IH" [OF \<open>i < line_max_iterations R\<close> body refl refl False next_loop]
      show ?thesis
      proof (cases "i + 1 < line_max_iterations R")
        case True
        with IH show ?thesis by auto
      next
        case last: False
        with next_loop have "j = i + 1" "\<not> brk" "st' = s" by simp_all
        with False b last True show ?thesis by auto
      qed
    qed
  qed
qed

text \<open>What \<^verbatim>\<open>bestModel\<close> and \<^verbatim>\<open>bestInLiers\<close> hold between iterations: their initial values,
  or the refit and the size of the consensus set of the line through two different points
  of the data.\<close>

definition line_refit_inv :: "RANSAC_line \<Rightarrow> line_state \<Rightarrow> bool" where
  "line_refit_inv R st \<longleftrightarrow>
     (bestInLiers st = 0 \<and> bestModel st = LineModel_default) \<or>
     (\<exists>p1 \<in> set (line_data R). \<exists>p2 \<in> set (line_data R). p1 \<noteq> p2 \<and>
        bestInLiers st = int (length (consensus_line (line_data R) (line_tolerance R) (LineModel_of p1 p2))) \<and>
        bestModel st = FitLeastSquares (consensus_line (line_data R) (line_tolerance R) (LineModel_of p1 p2)))"

lemma line_body_inv:
  assumes "line_body R rnd st = Some (Finished (brk, st'))" and "line_refit_inv R st"
  shows "line_refit_inv R st'"
proof -
  from assms(1) have ne: "line_data R \<noteq> []" and
    neq: "fst (line_sample R rnd st) \<noteq> snd (line_sample R rnd st)"
    by (auto simp: line_body_unfold split: if_splits)
  obtain p1 p2 where s: "line_sample R rnd st = (p1, p2)" by (cases "line_sample R rnd st")
  with line_sample_in_data [OF ne, of rnd st] neq
  have mem: "p1 \<in> set (line_data R)" "p2 \<in> set (line_data R)" "p1 \<noteq> p2" by simp_all
  have cs: "line_candidate_set R rnd st
              = consensus_line (line_data R) (line_tolerance R) (LineModel_of p1 p2)"
    by (simp add: line_candidate_set_def s)
  show ?thesis
  proof (cases "bestModel st' \<noteq> bestModel st \<or> bestInLiers st' \<noteq> bestInLiers st")
    case True
    from line_body_step(2) [OF assms(1) True] cs
    have "bestInLiers st' = int (length (consensus_line (line_data R) (line_tolerance R) (LineModel_of p1 p2)))"
      and "bestModel st' = FitLeastSquares (consensus_line (line_data R) (line_tolerance R) (LineModel_of p1 p2))"
      by simp_all
    with mem show ?thesis
      unfolding line_refit_inv_def by (intro disjI2 bexI [of _ p1] bexI [of _ p2] conjI)
  next
    case False
    with assms(2) show ?thesis by (simp add: line_refit_inv_def)
  qed
qed

lemma line_loop_inv:
  "line_loop R rnd i st = Some (Finished (j, brk, st')) \<Longrightarrow> line_refit_inv R st \<Longrightarrow>
     line_refit_inv R st'"
proof (induction R rnd i st rule: line_loop.induct)
  case (1 R rnd i st)
  show ?case
  proof (cases "i < line_max_iterations R")
    case False
    with "1.prems" show ?thesis by simp
  next
    case True
    with "1.prems" obtain b s where body: "line_body R rnd st = Some (Finished (b, s))"
      by (auto split: option.splits outcome.splits)
    have inv: "line_refit_inv R s" using line_body_inv [OF body "1.prems"(2)] .
    show ?thesis
    proof (cases b)
      case True
      with "1.prems" body \<open>i < line_max_iterations R\<close> inv show ?thesis by simp
    next
      case False
      with "1.prems" body \<open>i < line_max_iterations R\<close>
      have "line_loop R rnd (i + 1) s = Some (Finished (j, brk, st'))" by simp
      with "1.IH" [OF \<open>i < line_max_iterations R\<close> body refl refl False] inv
      show ?thesis by simp
    qed
  qed
qed


text \<open>From here on the recursion equation of the loop is unfolded by hand.\<close>

declare line_loop.simps [simp del]

subsection \<open>Facts about the plane model and its controller\<close>

lemma consensus_plane_acc:
  "fold (\<lambda>pt consensus_set. if computeDistance model pt < tol then consensus_set @ [pt]
                               else consensus_set) ps acc
     = acc @ filter (\<lambda>pt. computeDistance model pt < tol) ps"
  by (induction ps arbitrary: acc) simp_all

lemma getConsensusSet_unfold:
  "getConsensusSet R model =
     (if isValid model
      then filter (\<lambda>pt. computeDistance model pt < error_tolerance R) (plane_data R)
      else [])"
  by (simp add: getConsensusSet_def consensus_plane_acc)

lemma squaredNorm_nonneg: "0 \<le> squaredNorm u"
  by (simp add: squaredNorm_def dot_def)

lemma squaredNorm_div3:
  "s \<noteq> 0 \<Longrightarrow> squaredNorm (div3 u s) = squaredNorm u / (s * s)"
  by (simp add: squaredNorm_def dot_def div3_def add_divide_distrib)

lemma squaredNorm_normalized:
  assumes "0 < squaredNorm u"
  shows "squaredNorm (normalized u) = 1"
proof -
  have "sqrt (squaredNorm u) \<noteq> 0" using assms by simp
  moreover have "sqrt (squaredNorm u) * sqrt (squaredNorm u) = squaredNorm u"
    using assms by simp
  ultimately show ?thesis using assms
    by (simp add: normalized_def Let_def squaredNorm_div3)
qed

lemma norm3_normalized: "0 < squaredNorm u \<Longrightarrow> norm3 (normalized u) = 1"
  by (simp add: norm3_def squaredNorm_normalized)

lemma dot_normalized:
  "0 < squaredNorm u \<Longrightarrow> dot (normalized u) c = dot u c / sqrt (squaredNorm u)"
  by (simp add: normalized_def Let_def dot_def div3_def add_divide_distrib)

lemma squaredNorm_neg3: "squaredNorm (neg3 u) = squaredNorm u"
  by (simp add: squaredNorm_def dot_def neg3_def)

lemma dot_neg3: "dot (neg3 u) c = - dot u c"
  by (simp add: dot_def neg3_def)

lemma squaredNorm_zero_iff: "squaredNorm u = 0 \<longleftrightarrow> u = Zero3"
proof (cases u)
  case (Point3d x y z)
  have "x * x + y * y + z * z = 0 \<longleftrightarrow> x = 0 \<and> y = 0 \<and> z = 0"
    by (metis add_nonneg_eq_0_iff mult_eq_0_iff zero_le_square add_nonneg_nonneg)
  then show ?thesis by (simp add: Point3d squaredNorm_def dot_def Zero3_def)
qed

lemma isValid_default: "isValid (PlaneModel_default j) \<longleftrightarrow> norm3 j > 1 / 1000000000"
  by (simp add: isValid_def PlaneModel_default_def)

lemma isValid_default_zero: "\<not> isValid (PlaneModel_default Zero3)"
  by (simp add: isValid_default norm3_def squaredNorm_def dot_def Zero3_def)

lemma computeDistance_default: "computeDistance (PlaneModel_default j) pt = 10 ^ 10"
  by (simp add: computeDistance_def PlaneModel_default_def)

lemma isValid_of3:
  assumes "\<not> areCollinear p1 p2 p3"
  shows "isValid (PlaneModel_of3 j p1 p2 p3)"
proof -
  let ?c = "cross (minus3 p2 p1) (minus3 p3 p1)"
  from assms have big: "\<not> norm3 ?c < 1 / 1000000000" by (simp add: areCollinear_def Let_def)
  then have "0 < norm3 ?c" by simp
  then have "0 < squaredNorm ?c" by (simp add: norm3_def)
  then have "norm3 (normalized ?c) = 1" by (rule norm3_normalized)
  with big show ?thesis by (simp add: PlaneModel_of3_def Let_def isValid_def)
qed


text \<open>\<^verbatim>\<open>std::shuffle\<close> permutes the vector \<open>0, ..., n - 1\<close> that \<^verbatim>\<open>std::iota\<close> wrote: sorted,
  every shuffled index vector is that vector again.\<close>

definition valid_shuffles :: "plane_env \<Rightarrow> nat \<Rightarrow> bool" where
  "valid_shuffles E n \<longleftrightarrow> (\<forall>i. sort (shuffled E i) = [0..<n])"

text \<open>A candidate model: the plane through three non-collinear points of the data.\<close>

definition plane_candidate :: "RANSAC_plane \<Rightarrow> plane_env \<Rightarrow> PlaneModel \<Rightarrow> bool" where
  "plane_candidate R E M \<longleftrightarrow>
     (\<exists>p1 \<in> set (plane_data R). \<exists>p2 \<in> set (plane_data R). \<exists>p3 \<in> set (plane_data R).
        \<not> areCollinear p1 p2 p3 \<and> M = PlaneModel_of3 (junk E) p1 p2 p3)"

lemma shuffled_nth_in_range:
  assumes "sort idx = [0..<n]" and "k < n"
  shows "idx ! k < n"
proof -
  from assms(1) have len: "length idx = n" by (metis length_sort length_upt diff_zero)
  from assms(1) have "set idx = {..<n}" by (metis set_sort set_upt atLeast0LessThan)
  with len assms(2) show ?thesis by (metis lessThan_iff nth_mem)
qed

text \<open>The recursion equations of the two loops are unfolded by hand.\<close>

declare find_sample.simps [simp del]

lemma find_sample_Some:
  assumes "find_sample E ps indices attempt = Some M" and "0 \<le> attempt"
  shows "\<exists>k. attempt \<le> k \<and> k < min 10 (int (length ps) - 2) \<and>
             \<not> areCollinear (ps ! (indices ! nat k)) (ps ! (indices ! nat (k + 1)))
                              (ps ! (indices ! nat (k + 2))) \<and>
             M = PlaneModel_of3 (junk E) (ps ! (indices ! nat k)) (ps ! (indices ! nat (k + 1)))
                                (ps ! (indices ! nat (k + 2)))"
  using assms
proof (induction E ps indices attempt rule: find_sample.induct)
  case (1 E ps indices attempt)
  let ?p1 = "ps ! (indices ! nat attempt)"
  let ?p2 = "ps ! (indices ! nat (attempt + 1))"
  let ?p3 = "ps ! (indices ! nat (attempt + 2))"
  let ?M = "PlaneModel_of3 (junk E) ?p1 ?p2 ?p3"
  note unf = "1.prems"(1) [unfolded find_sample.simps [of E ps indices attempt]]
  have lt: "attempt < min 10 (int (length ps) - 2)"
    using unf by (simp split: if_splits)
  have len: "\<not> length indices < 3"
    using unf lt by (simp split: if_splits)
  show ?case
  proof (cases "areCollinear ?p1 ?p2 ?p3")
    case True
    with unf lt len have rec: "find_sample E ps indices (attempt + 1) = Some M"
      by (simp add: Let_def)
    from "1.IH"(2) [OF lt len refl refl refl _ rec] True "1.prems"(2)
    obtain k where k: "attempt + 1 \<le> k" "k < min 10 (int (length ps) - 2)"
      "\<not> areCollinear (ps ! (indices ! nat k)) (ps ! (indices ! nat (k + 1)))
                              (ps ! (indices ! nat (k + 2)))"
      "M = PlaneModel_of3 (junk E) (ps ! (indices ! nat k)) (ps ! (indices ! nat (k + 1)))
                                (ps ! (indices ! nat (k + 2)))"
      by auto
    from k(1) have "attempt \<le> k" by simp
    with k(2-4) show ?thesis by (intro exI [of _ k]) simp
  next
    case nc: False
    show ?thesis
    proof (cases "isValid ?M")
      case True
      with unf lt len nc have "M = ?M" by (simp add: Let_def)
      with nc lt show ?thesis by (intro exI [of _ attempt]) simp
    next
      case False
      with unf lt len nc have rec: "find_sample E ps indices (attempt + 1) = Some M"
        by (simp add: Let_def)
      from "1.IH"(1) [OF lt len refl refl refl _ refl False rec] nc "1.prems"(2)
      obtain k where k: "attempt + 1 \<le> k" "k < min 10 (int (length ps) - 2)"
        "\<not> areCollinear (ps ! (indices ! nat k)) (ps ! (indices ! nat (k + 1)))
                              (ps ! (indices ! nat (k + 2)))"
        "M = PlaneModel_of3 (junk E) (ps ! (indices ! nat k)) (ps ! (indices ! nat (k + 1)))
                                (ps ! (indices ! nat (k + 2)))"
        by auto
      from k(1) have "attempt \<le> k" by simp
      with k(2-4) show ?thesis by (intro exI [of _ k]) simp
    qed
  qed
qed


lemma find_sample_candidate:
  assumes found: "find_sample E (plane_data R) (shuffled E i) 0 = Some M"
    and shuf: "valid_shuffles E (length (plane_data R))"
  shows "plane_candidate R E M"
proof -
  let ?ps = "plane_data R" and ?idx = "shuffled E i"
  from find_sample_Some [OF found] obtain k where k: "0 \<le> k" "k < min 10 (int (length ?ps) - 2)"
    and nc: "\<not> areCollinear (?ps ! (?idx ! nat k)) (?ps ! (?idx ! nat (k + 1))) (?ps ! (?idx ! nat (k + 2)))"
    and M: "M = PlaneModel_of3 (junk E) (?ps ! (?idx ! nat k)) (?ps ! (?idx ! nat (k + 1))) (?ps ! (?idx ! nat (k + 2)))"
    by auto
  from shuf have sorted: "sort ?idx = [0..<length ?ps]" by (simp add: valid_shuffles_def)
  from k have "nat k < length ?ps" "nat (k + 1) < length ?ps" "nat (k + 2) < length ?ps"
    by (auto simp: nat_less_iff)
  then have "?idx ! nat k < length ?ps" "?idx ! nat (k + 1) < length ?ps"
    "?idx ! nat (k + 2) < length ?ps"
    by (simp_all add: shuffled_nth_in_range [OF sorted])
  then have "?ps ! (?idx ! nat k) \<in> set ?ps" "?ps ! (?idx ! nat (k + 1)) \<in> set ?ps"
    "?ps ! (?idx ! nat (k + 2)) \<in> set ?ps"
    by simp_all
  with nc M show ?thesis unfolding plane_candidate_def by blast
qed

lemma find_sample_valid:
  assumes "find_sample E ps indices 0 = Some M"
  shows "isValid M"
  using find_sample_Some [OF assms] isValid_of3 by auto

text \<open>The consensus set of the candidate of iteration \<open>i\<close>, when the iteration finds
  one.\<close>

definition plane_candidate_set :: "RANSAC_plane \<Rightarrow> plane_env \<Rightarrow> int \<Rightarrow> Point3d list option" where
  "plane_candidate_set R E i =
     (case find_sample E (plane_data R) (shuffled E (nat i)) 0 of
        None \<Rightarrow> None
      | Some currentModel \<Rightarrow> Some (getConsensusSet R currentModel))"

lemma plane_body_unfold:
  "plane_body R E ma i st =
     (case plane_candidate_set R E i of
        None \<Rightarrow> (False, st)
      | Some cs \<Rightarrow>
          if int (length cs) > bestInliersCount st
          then (int (length cs) \<ge> min_consensus R \<and> 0 > ma,
                st\<lparr>bestInliersCount := int (length cs), bestConsensusSet := cs,
                    attempts_without_improvement := 0\<rparr>)
          else (bestInliersCount st \<ge> min_consensus R \<and> attempts_without_improvement st + 1 > ma,
                st\<lparr>attempts_without_improvement := attempts_without_improvement st + 1\<rparr>))"
  by (simp add: plane_body_def plane_candidate_set_def Let_def split: option.splits)

lemma plane_body_step:
  assumes "plane_body R E ma i st = (brk, st')"
  shows "bestInliersCount st \<le> bestInliersCount st'"
    and "bestConsensusSet st' \<noteq> bestConsensusSet st \<or> bestInliersCount st' \<noteq> bestInliersCount st \<Longrightarrow>
           \<exists>cs. plane_candidate_set R E i = Some cs \<and> bestInliersCount st < int (length cs) \<and>
                bestInliersCount st' = int (length cs) \<and> bestConsensusSet st' = cs \<and>
                attempts_without_improvement st' = 0"
    and "brk \<Longrightarrow> min_consensus R \<le> bestInliersCount st' \<and> ma < attempts_without_improvement st'"
    and "\<not> brk \<Longrightarrow> plane_candidate_set R E i \<noteq> None \<Longrightarrow>
           \<not> (min_consensus R \<le> bestInliersCount st' \<and> ma < attempts_without_improvement st')"
  using assms by (auto simp: plane_body_unfold split: option.splits if_splits)

declare plane_loop.simps [simp del]

lemma plane_loop_invariant:
  assumes "P st" and "plane_loop R E ma i st = (j, brk, st')"
    and "\<And>i st brk st'. P st \<Longrightarrow> plane_body R E ma i st = (brk, st') \<Longrightarrow> P st'"
  shows "P st'"
  using assms
proof (induction R E ma i st rule: plane_loop.induct)
  case (1 R E ma i st)
  note unf = "1.prems"(2) [unfolded plane_loop.simps [of R E ma i st]]
  show ?case
  proof (cases "i < plane_max_iterations R")
    case False
    with unf "1.prems"(1) show ?thesis by simp
  next
    case True
    obtain b s where body: "plane_body R E ma i st = (b, s)" by (cases "plane_body R E ma i st")
    have Ps: "P s" using "1.prems"(3) [OF "1.prems"(1) body] .
    show ?thesis
    proof (cases b)
      case True
      with unf body \<open>i < plane_max_iterations R\<close> Ps show ?thesis by simp
    next
      case False
      with unf body \<open>i < plane_max_iterations R\<close>
      have next_loop: "plane_loop R E ma (i + 1) s = (j, brk, st')" by simp
      show ?thesis
        by (rule "1.IH" [OF \<open>i < plane_max_iterations R\<close> body [symmetric] False Ps next_loop])
           (rule "1.prems"(3))
    qed
  qed
qed

lemma plane_loop_exit:
  "plane_loop R E ma i st = (j, brk, st') \<Longrightarrow>
     (brk \<longrightarrow> i \<le> j \<and> j < plane_max_iterations R \<and>
             min_consensus R \<le> bestInliersCount st' \<and> ma < attempts_without_improvement st') \<and>
     (\<not> brk \<longrightarrow> plane_max_iterations R \<le> j)"
proof (induction R E ma i st rule: plane_loop.induct)
  case (1 R E ma i st)
  note unf = "1.prems" [unfolded plane_loop.simps [of R E ma i st]]
  show ?case
  proof (cases "i < plane_max_iterations R")
    case False
    with unf show ?thesis by simp
  next
    case True
    obtain b s where body: "plane_body R E ma i st = (b, s)" by (cases "plane_body R E ma i st")
    show ?thesis
    proof (cases b)
      case True
      with unf body \<open>i < plane_max_iterations R\<close> plane_body_step(3) [OF body]
      show ?thesis by auto
    next
      case False
      with unf body \<open>i < plane_max_iterations R\<close>
      have next_loop: "plane_loop R E ma (i + 1) s = (j, brk, st')" by simp
      from "1.IH" [OF \<open>i < plane_max_iterations R\<close> body [symmetric] False next_loop]
      show ?thesis by auto
    qed
  qed
qed


text \<open>What \<^verbatim>\<open>bestInliersCount\<close> and \<^verbatim>\<open>bestConsensusSet\<close> hold between iterations.\<close>

definition plane_best_inv :: "RANSAC_plane \<Rightarrow> plane_env \<Rightarrow> plane_state \<Rightarrow> bool" where
  "plane_best_inv R E st \<longleftrightarrow>
     bestInliersCount st = int (length (bestConsensusSet st)) \<and>
     (bestConsensusSet st = [] \<or>
      (\<exists>M. plane_candidate R E M \<and> bestConsensusSet st = getConsensusSet R M))"

lemma plane_body_inv:
  assumes shuf: "valid_shuffles E (length (plane_data R))"
    and inv: "plane_best_inv R E st"
    and body: "plane_body R E ma i st = (brk, st')"
  shows "plane_best_inv R E st'"
proof (cases "bestConsensusSet st' \<noteq> bestConsensusSet st \<or> bestInliersCount st' \<noteq> bestInliersCount st")
  case True
  from plane_body_step(2) [OF body True] obtain cs where
    cs: "plane_candidate_set R E i = Some cs" "bestInliersCount st' = int (length cs)"
      "bestConsensusSet st' = cs"
    by blast
  from cs(1) obtain M where M: "find_sample E (plane_data R) (shuffled E (nat i)) 0 = Some M"
    "cs = getConsensusSet R M"
    by (auto simp: plane_candidate_set_def split: option.splits)
  from find_sample_candidate [OF M(1) shuf] have "plane_candidate R E M" .
  with cs M(2) show ?thesis unfolding plane_best_inv_def by blast
next
  case False
  with inv show ?thesis by (simp add: plane_best_inv_def)
qed

lemma plane_init_inv: "plane_best_inv R E plane_init"
  by (simp add: plane_best_inv_def plane_init_def)

lemma plane_loop_inv:
  assumes "valid_shuffles E (length (plane_data R))"
    and "plane_loop R E ma 0 plane_init = (j, brk, st')"
  shows "plane_best_inv R E st'"
  using plane_init_inv assms(2)
proof (rule plane_loop_invariant)
  fix i st brk st'
  assume "plane_best_inv R E st" "plane_body R E ma i st = (brk, st')"
  with assms(1) show "plane_best_inv R E st'" by (rule plane_body_inv)
qed

lemma plane_loop_mono:
  assumes "plane_loop R E ma i st = (j, brk, st')"
  shows "bestInliersCount st \<le> bestInliersCount st'"
proof (rule plane_loop_invariant [where P = "\<lambda>s. bestInliersCount st \<le> bestInliersCount s", OF _ assms])
  show "bestInliersCount st \<le> bestInliersCount st" by simp
next
  fix i s brk s'
  assume "bestInliersCount st \<le> bestInliersCount s" "plane_body R E ma i s = (brk, s')"
  with plane_body_step(1) [of R E ma i s brk s'] show "bestInliersCount st \<le> bestInliersCount s'"
    by simp
qed

lemma run_plane_cases:
  assumes "valid_shuffles E (length (plane_data R))"
  shows "run_plane R E = PlaneModel_default (junk E) \<or>
         (\<exists>M. plane_candidate R E M \<and> 3 \<le> length (getConsensusSet R M) \<and>
              isValid (fitModel E (getConsensusSet R M)) \<and>
              run_plane R E = fitModel E (getConsensusSet R M))"
proof (cases "length (plane_data R) < 3")
  case True
  then show ?thesis by (simp add: run_plane_def)
next
  case False
  obtain j brk st where loop:
    "plane_loop R E (cpp_div (plane_max_iterations R) 4) 0 plane_init = (j, brk, st)"
    by (cases "plane_loop R E (cpp_div (plane_max_iterations R) 4) 0 plane_init")
  from plane_loop_inv [OF assms loop] have inv: "plane_best_inv R E st" .
  show ?thesis
  proof (cases "3 \<le> length (bestConsensusSet st) \<and> isValid (fitModel E (bestConsensusSet st))")
    case fit: True
    then have "bestConsensusSet st \<noteq> []" by auto
    with inv obtain M where M: "plane_candidate R E M" "bestConsensusSet st = getConsensusSet R M"
      unfolding plane_best_inv_def by blast
    from False loop fit \<open>bestConsensusSet st \<noteq> []\<close>
    have "run_plane R E = fitModel E (bestConsensusSet st)"
      by (simp add: run_plane_def Let_def)
    with M fit show ?thesis by auto
  next
    case nofit: False
    with False loop have "run_plane R E = PlaneModel_default (junk E)"
      by (auto simp: run_plane_def Let_def)
    then show ?thesis by simp
  qed
qed

text \<open>The centroid of a point set: the mean of each coordinate.\<close>

definition centroid_of :: "Point3d list \<Rightarrow> Point3d" where
  "centroid_of ps = Point3d ((\<Sum>p\<leftarrow>ps. x_of p) / real (length ps))
                            ((\<Sum>p\<leftarrow>ps. y_of p) / real (length ps))
                            ((\<Sum>p\<leftarrow>ps. z_of p) / real (length ps))"

lemma fold_plus3:
  "fold (\<lambda>pt c. plus3 c pt) ps acc =
     Point3d (x_of acc + (\<Sum>p\<leftarrow>ps. x_of p)) (y_of acc + (\<Sum>p\<leftarrow>ps. y_of p))
             (z_of acc + (\<Sum>p\<leftarrow>ps. z_of p))"
  by (induction ps arbitrary: acc) (simp_all add: plus3_def add.assoc)

lemma fitModel_unfold:
  "fitModel E cs =
     (if length cs < 3 then PlaneModel_default (junk E)
      else let nv = svd_V_col2 E (map (\<lambda>pt. minus3 pt (centroid_of cs)) cs)
           in PlaneModel_of2 (if dot nv (centroid_of cs) > 0 then neg3 nv else nv) (centroid_of cs))"
  by (simp add: fitModel_def Let_def fold_plus3 centroid_of_def div3_def Zero3_def)

lemma evaluate_fold:
  "fold (\<lambda>pt (total_error, inlier_count).
           let dist = computeDistance model pt
           in if dist < tol then (total_error + dist, inlier_count + 1)
              else (total_error, inlier_count)) ps (t, k :: int)
     = (t + sum_list (filter (\<lambda>d. d < tol) (map (computeDistance model) ps)),
        k + int (length (filter (\<lambda>d. d < tol) (map (computeDistance model) ps))))"
  by (induction ps arbitrary: t k) (simp_all add: Let_def)


subsection \<open>The consensus evaluator\<close>

text \<open>A model whose coefficients \<open>a, b, c\<close> are negligible whenever \<open>isValid\<close> rejects it
  passes the same points through \<open>getConsensusSet\<close> as through the plain test on the
  distance, as long as the tolerance does not exceed the distance \<open>10^10\<close> that
  \<open>computeDistance\<close> gives to such a model.\<close>

lemma getConsensusSet_literal:
  assumes tol: "error_tolerance R \<le> 10 ^ 10"
    and coh: "\<not> isValid model \<Longrightarrow>
       plane_a model * plane_a model + plane_b model * plane_b model
         + plane_c model * plane_c model < 1 / 10 ^ 18"
  shows "getConsensusSet R model
           = filter (\<lambda>pt. computeDistance model pt < error_tolerance R) (plane_data R)"
proof (cases "isValid model")
  case True
  then show ?thesis by (simp add: getConsensusSet_unfold)
next
  case False
  from coh [OF False] have "computeDistance model pt = 10 ^ 10" for pt
    by (simp add: computeDistance_def)
  with tol False show ?thesis by (simp add: getConsensusSet_unfold)
qed

text \<open>Every model that a constructor builds is of that kind.\<close>

lemma coherent_default:
  "plane_a (PlaneModel_default j) * plane_a (PlaneModel_default j)
     + plane_b (PlaneModel_default j) * plane_b (PlaneModel_default j)
     + plane_c (PlaneModel_default j) * plane_c (PlaneModel_default j) < 1 / 10 ^ 18"
  by (simp add: PlaneModel_default_def)

lemma coherent_of3:
  assumes "\<not> isValid (PlaneModel_of3 j p1 p2 p3)"
  shows "plane_a (PlaneModel_of3 j p1 p2 p3) * plane_a (PlaneModel_of3 j p1 p2 p3)
     + plane_b (PlaneModel_of3 j p1 p2 p3) * plane_b (PlaneModel_of3 j p1 p2 p3)
     + plane_c (PlaneModel_of3 j p1 p2 p3) * plane_c (PlaneModel_of3 j p1 p2 p3) < 1 / 10 ^ 18"
proof -
  from assms isValid_of3 [of p1 p2 p3 j] have "areCollinear p1 p2 p3" by blast
  then show ?thesis by (simp add: PlaneModel_of3_def areCollinear_def Let_def)
qed

lemma coherent_of2:
  assumes "\<not> isValid (PlaneModel_of2 n c)"
  shows "plane_a (PlaneModel_of2 n c) * plane_a (PlaneModel_of2 n c)
     + plane_b (PlaneModel_of2 n c) * plane_b (PlaneModel_of2 n c)
     + plane_c (PlaneModel_of2 n c) * plane_c (PlaneModel_of2 n c) < 1 / 10 ^ 18"
proof (cases "0 < squaredNorm n")
  case True
  then have "norm3 (normalized n) = 1" by (rule norm3_normalized)
  then have "isValid (PlaneModel_of2 n c)" by (simp add: PlaneModel_of2_def isValid_def Let_def)
  with assms show ?thesis by simp
next
  case False
  with squaredNorm_nonneg [of n] have z: "squaredNorm n = 0" by simp
  then have "normalized n = n" by (simp add: normalized_def)
  with z show ?thesis by (simp add: PlaneModel_of2_def Let_def squaredNorm_def dot_def)
qed

text \<open>
  Claim C1. For every point store and every valid model, \<open>getConsensusSet\<close> returns
  exactly the points of the store whose distance to the model is strictly below the
  tolerance, in store order, and for every invalid model it returns the empty set. For
  every model that a constructor builds and every tolerance up to \<open>10^10\<close>, the distance
  that stands for infinity, the two agree: the set returned is exactly the points whose
  distance is strictly below the tolerance, and it is empty for \<^verbatim>\<open>PlaneModel()\<close> whatever
  its \<^verbatim>\<open>normal\<close> member holds. The consensus loop of the line variant returns exactly the
  points whose error is strictly below the tolerance, in store order, for every model.
\<close>

theorem consensus_set_is_filter:
  "(isValid model \<longrightarrow>
      getConsensusSet R model
        = filter (\<lambda>pt. computeDistance model pt < error_tolerance R) (plane_data R)) \<and>
   (\<not> isValid model \<longrightarrow> getConsensusSet R model = []) \<and>
   (error_tolerance R \<le> 10 ^ 10 \<longrightarrow>
      getConsensusSet R (PlaneModel_default j) = [] \<and>
      getConsensusSet R (PlaneModel_default j)
        = filter (\<lambda>pt. computeDistance (PlaneModel_default j) pt < error_tolerance R)
            (plane_data R) \<and>
      getConsensusSet R (PlaneModel_of3 j p1 p2 p3)
        = filter (\<lambda>pt. computeDistance (PlaneModel_of3 j p1 p2 p3) pt < error_tolerance R)
            (plane_data R) \<and>
      getConsensusSet R (PlaneModel_of2 n c)
        = filter (\<lambda>pt. computeDistance (PlaneModel_of2 n c) pt < error_tolerance R)
            (plane_data R)) \<and>
   consensus_line ps tol M = filter (\<lambda>pt. computeError M pt < tol) ps"
proof (intro conjI impI)
  assume tol: "error_tolerance R \<le> 10 ^ 10"
  show lit: "getConsensusSet R (PlaneModel_default j)
        = filter (\<lambda>pt. computeDistance (PlaneModel_default j) pt < error_tolerance R)
            (plane_data R)"
    using tol coherent_default by (rule getConsensusSet_literal)
  from tol show "getConsensusSet R (PlaneModel_default j) = []"
    by (simp add: lit computeDistance_default)
  show "getConsensusSet R (PlaneModel_of3 j p1 p2 p3)
        = filter (\<lambda>pt. computeDistance (PlaneModel_of3 j p1 p2 p3) pt < error_tolerance R)
            (plane_data R)"
    using tol coherent_of3 by (rule getConsensusSet_literal)
  show "getConsensusSet R (PlaneModel_of2 n c)
        = filter (\<lambda>pt. computeDistance (PlaneModel_of2 n c) pt < error_tolerance R)
            (plane_data R)"
    using tol coherent_of2 by (rule getConsensusSet_literal)
qed (simp_all add: getConsensusSet_unfold consensus_line_filter)

text \<open>A store of three points and the tolerance \<open>1/2\<close>.\<close>

definition store3 :: RANSAC_plane where
  "store3 = \<lparr>plane_data = [Point3d 0 0 0, Point3d 0 0 5, Point3d 1 1 (1 / 10)],
              error_tolerance = 1 / 2, plane_max_iterations = 1, min_consensus = 1\<rparr>"

theorem consensus_set_is_filter_witness:
  "isValid (PlaneModel_of2 (Point3d 0 0 1) Zero3) \<and>
   getConsensusSet store3 (PlaneModel_of2 (Point3d 0 0 1) Zero3)
     = [Point3d 0 0 0, Point3d 1 1 (1 / 10)] \<and>
   \<not> isValid (PlaneModel_default Zero3) \<and>
   getConsensusSet store3 (PlaneModel_default Zero3) = [] \<and>
   error_tolerance store3 \<le> 10 ^ 10 \<and>
   isValid (PlaneModel_default (Point3d 0 1 0)) \<and>
   getConsensusSet store3 (PlaneModel_default (Point3d 0 1 0)) = [] \<and>
   consensus_line [(0, 1), (1, 3), (2, 9)] (1 / 2) (LineModel_of (0, 1) (1, 3)) = [(0, 1), (1, 3)]"
proof -
  have v: "isValid (PlaneModel_of2 (Point3d 0 0 1) Zero3)"
    by (simp add: isValid_def PlaneModel_of2_def normalized_def squaredNorm_def norm3_def dot_def
          div3_def Let_def)
  have tol: "error_tolerance store3 \<le> 10 ^ 10" by (simp add: store3_def)
  have j: "isValid (PlaneModel_default (Point3d 0 1 0))"
    by (simp add: isValid_default norm3_def squaredNorm_def dot_def)
  note valid = consensus_set_is_filter
      [of "PlaneModel_of2 (Point3d 0 0 1) Zero3" store3 "Point3d 0 1 0"
          Zero3 Zero3 Zero3 Zero3 Zero3
          "[(0, 1), (1, 3), (2, 9)]" "1 / 2" "LineModel_of (0, 1) (1, 3)"]
  note invalid = consensus_set_is_filter
      [of "PlaneModel_default Zero3" store3 "Point3d 0 1 0" Zero3 Zero3 Zero3 Zero3 Zero3
          "[]" 0 LineModel_default]
  from valid v have 1: "getConsensusSet store3 (PlaneModel_of2 (Point3d 0 0 1) Zero3)
     = [Point3d 0 0 0, Point3d 1 1 (1 / 10)]"
    by (simp add: store3_def PlaneModel_of2_def normalized_def squaredNorm_def dot_def div3_def
          Zero3_def computeDistance_def Let_def)
  from invalid isValid_default_zero
  have 2: "getConsensusSet store3 (PlaneModel_default Zero3) = []" by simp
  from valid tol
  have 3: "getConsensusSet store3 (PlaneModel_default (Point3d 0 1 0)) = []" by simp
  from valid
  have 4: "consensus_line [(0, 1), (1, 3), (2, 9)] (1 / 2) (LineModel_of (0, 1) (1, 3))
             = [(0, 1), (1, 3)]"
    by (simp add: LineModel_of_def computeError_def)
  from v tol j 1 2 3 4 isValid_default_zero show ?thesis by simp
qed

subsection \<open>The quality score\<close>

text \<open>The distances of the points of the store that are strictly within tolerance, in
  store order.\<close>

definition inlier_distances :: "RANSAC_plane \<Rightarrow> PlaneModel \<Rightarrow> real list" where
  "inlier_distances R model =
     filter (\<lambda>dist. dist < error_tolerance R) (map (computeDistance model) (plane_data R))"

text \<open>
  Claim C10. \<open>evaluateModel\<close> returns the arithmetic mean of the distances strictly within
  tolerance when the model is valid and there is such a distance, and \<open>10^10\<close> in every
  other case; the only division it makes is by the number of those distances, which is
  then not zero.
\<close>

theorem evaluateModel_mean:
  "evaluateModel R model =
     (if isValid model \<and> inlier_distances R model \<noteq> []
      then sum_list (inlier_distances R model) / real (length (inlier_distances R model))
      else 10 ^ 10)"
  by (auto simp: evaluateModel_def evaluate_fold inlier_distances_def filter_map comp_def)

theorem evaluateModel_mean_witness:
  "evaluateModel
     \<lparr>plane_data = [Point3d 0 0 0, Point3d 0 0 5, Point3d 1 1 (1 / 10)], error_tolerance = 1 / 2,
      plane_max_iterations = 1, min_consensus = 1\<rparr>
     (PlaneModel_of2 (Point3d 0 0 1) Zero3) = 1 / 20 \<and>
   evaluateModel
     \<lparr>plane_data = [Point3d 0 0 5], error_tolerance = 1 / 2,
      plane_max_iterations = 1, min_consensus = 1\<rparr>
     (PlaneModel_of2 (Point3d 0 0 1) Zero3) = 10 ^ 10 \<and>
   evaluateModel
     \<lparr>plane_data = [Point3d 0 0 0], error_tolerance = 1 / 2,
      plane_max_iterations = 1, min_consensus = 1\<rparr>
     (PlaneModel_default Zero3) = 10 ^ 10"
  by (simp add: evaluateModel_mean inlier_distances_def isValid_def PlaneModel_of2_def
        PlaneModel_default_def normalized_def squaredNorm_def norm3_def dot_def div3_def Zero3_def
        computeDistance_def Let_def)

subsection \<open>The plane refit\<close>

text \<open>For every consensus set of at least 3 points for which the singular-vector routine
  returns a vector that is not zero (it returns a unit vector), \<open>fitModel\<close> returns a valid
  model whose normal has length 1, whose coefficients \<open>a, b, c\<close> satisfy
  \<open>a^2 + b^2 + c^2 = 1\<close>, and whose normal has a scalar product with the centroid that is
  not positive. For every consensus set of fewer than 3 points it returns \<^verbatim>\<open>PlaneModel()\<close>:
  the coefficients are zero and the distance to every point is \<open>10^10\<close>, but \<open>isValid\<close>
  answers by the \<^verbatim>\<open>normal\<close> member, which nothing has written.\<close>

lemma fitModel_unit_oriented:
  "(3 \<le> length cs \<and> svd_V_col2 E (map (\<lambda>pt. minus3 pt (centroid_of cs)) cs) \<noteq> Zero3 \<longrightarrow>
      norm3 (normal (fitModel E cs)) = 1 \<and>
      plane_a (fitModel E cs) * plane_a (fitModel E cs)
        + plane_b (fitModel E cs) * plane_b (fitModel E cs)
        + plane_c (fitModel E cs) * plane_c (fitModel E cs) = 1 \<and>
      dot (normal (fitModel E cs)) (centroid_of cs) \<le> 0 \<and>
      isValid (fitModel E cs)) \<and>
   (length cs < 3 \<longrightarrow>
      fitModel E cs = PlaneModel_default (junk E) \<and>
      computeDistance (fitModel E cs) pt = 10 ^ 10 \<and>
      (isValid (fitModel E cs) \<longleftrightarrow> norm3 (junk E) > 1 / 1000000000))"
proof (intro conjI impI)
  assume "length cs < 3"
  then show fit: "fitModel E cs = PlaneModel_default (junk E)" by (simp add: fitModel_unfold)
  show "computeDistance (fitModel E cs) pt = 10 ^ 10" by (simp add: fit computeDistance_default)
  show "isValid (fitModel E cs) \<longleftrightarrow> norm3 (junk E) > 1 / 1000000000"
    by (simp add: fit isValid_default)
next
  assume a: "3 \<le> length cs \<and> svd_V_col2 E (map (\<lambda>pt. minus3 pt (centroid_of cs)) cs) \<noteq> Zero3"
  define nv where "nv = svd_V_col2 E (map (\<lambda>pt. minus3 pt (centroid_of cs)) cs)"
  define nv' where "nv' = (if dot nv (centroid_of cs) > 0 then neg3 nv else nv)"
  from a have "squaredNorm nv \<noteq> 0" by (simp add: squaredNorm_zero_iff nv_def)
  with squaredNorm_nonneg [of nv] have "0 < squaredNorm nv" by simp
  then have pos: "0 < squaredNorm nv'" by (simp add: nv'_def squaredNorm_neg3)
  have le: "dot nv' (centroid_of cs) \<le> 0" by (simp add: nv'_def dot_neg3)
  from a have fit: "fitModel E cs = PlaneModel_of2 nv' (centroid_of cs)"
    by (simp add: fitModel_unfold nv_def nv'_def Let_def)
  then have n: "normal (fitModel E cs) = normalized nv'"
    and abc: "plane_a (fitModel E cs) = x_of (normalized nv')"
      "plane_b (fitModel E cs) = y_of (normalized nv')"
      "plane_c (fitModel E cs) = z_of (normalized nv')"
    by (simp_all add: PlaneModel_of2_def Let_def)
  show "norm3 (normal (fitModel E cs)) = 1" using pos by (simp add: n norm3_normalized)
  then show "isValid (fitModel E cs)" by (simp add: isValid_def)
  from squaredNorm_normalized [OF pos]
  show "plane_a (fitModel E cs) * plane_a (fitModel E cs)
        + plane_b (fitModel E cs) * plane_b (fitModel E cs)
        + plane_c (fitModel E cs) * plane_c (fitModel E cs) = 1"
    by (simp add: abc squaredNorm_def dot_def)
  from pos have "0 < sqrt (squaredNorm nv')" by simp
  with le show "dot (normal (fitModel E cs)) (centroid_of cs) \<le> 0"
    by (simp add: n dot_normalized [OF pos] divide_le_0_iff)
qed


subsection \<open>Example inputs\<close>

text \<open>Four points on the line \<open>y = 2 x + 1\<close>, with a budget of three iterations.\<close>

definition line_exact :: RANSAC_line where
  "line_exact = \<lparr>line_data = [(0, 1), (1, 3), (2, 5), (3, 7)], line_tolerance = 1 / 100,
                  line_max_iterations = 3, line_threshold = 4\<rparr>"

text \<open>Three points of the plane \<open>z = 1\<close>, with a budget of \<open>n\<close> iterations; a shuffle that
  leaves the order as it is, and a singular vector \<open>(0, 0, 1)\<close>.\<close>

definition plane_tri :: "int \<Rightarrow> RANSAC_plane" where
  "plane_tri n = \<lparr>plane_data = [Point3d 0 0 1, Point3d 1 0 1, Point3d 0 1 1],
                   error_tolerance = 1 / 2, plane_max_iterations = n, min_consensus = 3\<rparr>"

definition env_tri :: plane_env where
  "env_tri = \<lparr>shuffled = (\<lambda>i. [0, 1, 2]), svd_V_col2 = (\<lambda>rows. Point3d 0 0 1), junk = Zero3\<rparr>"

definition tri_found :: plane_state where
  "tri_found = \<lparr>bestInliersCount = 3,
                 bestConsensusSet = [Point3d 0 0 1, Point3d 1 0 1, Point3d 0 1 1],
                 attempts_without_improvement = 0\<rparr>"

lemmas vec_defs = Zero3_def plus3_def minus3_def neg3_def div3_def dot_def cross_def
  squaredNorm_def norm3_def normalized_def

lemmas plane_defs = PlaneModel_default_def PlaneModel_of3_def PlaneModel_of2_def
  computeDistance_def isValid_def areCollinear_def

lemma line_exact_body:
  "line_body line_exact id line_init =
     Some (Finished (True, \<lparr>bestModel = \<lparr>line_m = 2, line_b = 1\<rparr>, bestInLiers = 4, rand_calls = 2\<rparr>))"
  by (simp add: line_body_unfold line_exact_def line_init_def line_sample_def line_candidate_set_def
        consensus_line_filter LineModel_of_def computeError_def Let_def
        FitLeastSquares_def sums_step_def double_small)

lemma line_exact_loop:
  "line_loop line_exact id 0 line_init =
     Some (Finished (0, True, \<lparr>bestModel = \<lparr>line_m = 2, line_b = 1\<rparr>, bestInLiers = 4, rand_calls = 2\<rparr>))"
proof -
  have m: "line_max_iterations line_exact = 3" by (simp add: line_exact_def)
  show ?thesis by (subst line_loop.simps) (simp add: line_exact_body m)
qed

lemma plane_tri_sample:
  "find_sample env_tri (plane_data (plane_tri n)) (shuffled env_tri k) 0 =
     Some \<lparr>plane_a = 0, plane_b = 0, plane_c = 1, plane_d = - 1, normal = Point3d 0 0 1\<rparr>"
  by (subst find_sample.simps) (simp add: plane_tri_def env_tri_def vec_defs plane_defs Let_def)

lemma plane_tri_candidate_set:
  "plane_candidate_set (plane_tri n) env_tri i = Some [Point3d 0 0 1, Point3d 1 0 1, Point3d 0 1 1]"
  by (simp add: plane_candidate_set_def plane_tri_sample getConsensusSet_unfold)
     (simp add: plane_tri_def vec_defs plane_defs)

lemma plane_tri_body_first:
  "plane_body (plane_tri n) env_tri 0 i plane_init = (False, tri_found)"
  by (simp add: plane_body_unfold plane_tri_candidate_set plane_init_def tri_found_def)

lemma plane_tri_body_next:
  "plane_body (plane_tri n) env_tri 0 i tri_found
     = (True, tri_found\<lparr>attempts_without_improvement := 1\<rparr>)"
  by (simp add: plane_body_unfold plane_tri_candidate_set tri_found_def)
     (simp add: plane_tri_def)

lemma plane_tri_quarter: "cpp_div (plane_max_iterations (plane_tri 3)) 4 = 0"
  "cpp_div (plane_max_iterations (plane_tri 1)) 4 = 0"
  by (simp_all add: cpp_div_def plane_tri_def)

lemma plane_tri_loop_break:
  "plane_loop (plane_tri 3) env_tri (cpp_div (plane_max_iterations (plane_tri 3)) 4) 0 plane_init =
     (1, True, tri_found\<lparr>attempts_without_improvement := 1\<rparr>)"
proof -
  have m: "plane_max_iterations (plane_tri 3) = 3" by (simp add: plane_tri_def)
  show ?thesis
    unfolding plane_tri_quarter
    by (subst plane_loop.simps, simp add: plane_tri_body_first m,
        subst plane_loop.simps, simp add: plane_tri_body_next m)
qed

lemma plane_tri_loop_exhaust:
  "plane_loop (plane_tri 1) env_tri (cpp_div (plane_max_iterations (plane_tri 1)) 4) 0 plane_init =
     (1, False, tri_found)"
proof -
  have m: "plane_max_iterations (plane_tri 1) = 1" by (simp add: plane_tri_def)
  show ?thesis
    unfolding plane_tri_quarter
    by (subst plane_loop.simps, simp add: plane_tri_body_first m,
        subst plane_loop.simps, simp add: m)
qed

lemma plane_tri_run:
  "run_plane (plane_tri 3) env_tri =
     \<lparr>plane_a = 0, plane_b = 0, plane_c = - 1, plane_d = 1, normal = Point3d 0 0 (- 1)\<rparr>"
proof -
  have len: "\<not> length (plane_data (plane_tri 3)) < 3" by (simp add: plane_tri_def)
  have fit: "fitModel env_tri [Point3d 0 0 1, Point3d 1 0 1, Point3d 0 1 1] =
     \<lparr>plane_a = 0, plane_b = 0, plane_c = - 1, plane_d = 1, normal = Point3d 0 0 (- 1)\<rparr>"
    by (simp add: fitModel_unfold centroid_of_def env_tri_def vec_defs plane_defs Let_def)
  show ?thesis
    by (simp add: run_plane_def len plane_tri_loop_break Let_def tri_found_def fit)
       (simp add: isValid_def vec_defs)
qed

lemma env_tri_valid: "valid_shuffles env_tri (length (plane_data (plane_tri n)))"
  by (simp add: valid_shuffles_def env_tri_def plane_tri_def upt_rec)

text \<open>Two points with the same x-coordinate, one iteration, and a threshold that is out of
  reach.\<close>

definition line_vertical :: RANSAC_line where
  "line_vertical = \<lparr>line_data = [(0, 5), (0, 6)], line_tolerance = 1 / 2,
                     line_max_iterations = 1, line_threshold = 5\<rparr>"

lemma line_vertical_body:
  "line_body line_vertical id line_init =
     Some (Finished (False, \<lparr>bestModel = LineModel_default, bestInLiers = 1, rand_calls = 2\<rparr>))"
  by (simp add: line_body_unfold line_vertical_def line_init_def line_sample_def line_candidate_set_def
        consensus_line_filter LineModel_of_def computeError_def Let_def
        FitLeastSquares_def sums_step_def double_small)

lemma line_vertical_loop:
  "line_loop line_vertical id 0 line_init =
     Some (Finished (1, False, \<lparr>bestModel = LineModel_default, bestInLiers = 1, rand_calls = 2\<rparr>))"
proof -
  have m: "line_max_iterations line_vertical = 1" by (simp add: line_vertical_def)
  show ?thesis
    by (subst line_loop.simps, simp add: line_vertical_body m, subst line_loop.simps)
       (simp add: m)
qed

subsection \<open>What the controllers return\<close>

text \<open>
  Claim C2 as it is written fails. On the two points \<open>(0, 5)\<close> and \<open>(0, 6)\<close> the single
  iteration draws both, finds a consensus set of one point and does not reach the
  threshold, so the budget is exhausted; the refit of that set has a zero denominator, and
  \<open>run\<close> returns the default model, which has no inlier at all.
\<close>

theorem run_line_default_counterexample:
  "line_loop line_vertical id 0 line_init =
     Some (Finished (1, False, \<lparr>bestModel = LineModel_default, bestInLiers = 1, rand_calls = 2\<rparr>)) \<and>
   bestInLiers \<lparr>bestModel = LineModel_default, bestInLiers = 1, rand_calls = 2\<rparr>
     < line_threshold line_vertical \<and>
   run_line line_vertical id = Some (Finished LineModel_default) \<and>
   consensus_line (line_data line_vertical) (line_tolerance line_vertical) (LineModel_of (0, 5) (0, 6))
     = [(0, 5)] \<and>
   consensus_line (line_data line_vertical) (line_tolerance line_vertical) LineModel_default = []"
  by (simp add: line_vertical_loop run_line_def)
     (simp add: line_vertical_def consensus_line_filter LineModel_of_def computeError_def
        LineModel_default_def)

subsection \<open>The best consensus set\<close>

text \<open>Among the iterations \<open>0, ..., n - 1\<close>, iteration \<open>t\<close> is the first whose consensus set
  has the largest size.\<close>

definition first_largest :: "(nat \<Rightarrow> nat) \<Rightarrow> nat \<Rightarrow> nat \<Rightarrow> bool" where
  "first_largest sz n t \<longleftrightarrow> t < n \<and> (\<forall>u<n. sz u \<le> sz t) \<and> (\<forall>u<t. sz u < sz t)"

lemma first_largest_new:
  assumes "\<forall>u<n. sz u < sz n"
  shows "first_largest sz (Suc n) n"
  using assms by (auto simp: first_largest_def less_Suc_eq intro: less_imp_le)

lemma first_largest_old:
  assumes "first_largest sz n t" and "sz n \<le> sz t"
  shows "first_largest sz (Suc n) t"
  using assms by (auto simp: first_largest_def less_Suc_eq)

text \<open>The consensus set of the candidate of iteration \<open>t\<close> of the line controller: each
  iteration that completes has called \<^verbatim>\<open>rand()\<close> twice.\<close>

definition line_iter_set :: "RANSAC_line \<Rightarrow> (nat \<Rightarrow> nat) \<Rightarrow> nat \<Rightarrow> point2d list" where
  "line_iter_set R rnd t =
     line_candidate_set R rnd \<lparr>bestModel = LineModel_default, bestInLiers = 0, rand_calls = 2 * t\<rparr>"

lemma line_candidate_set_iter:
  "rand_calls st = 2 * t \<Longrightarrow> line_candidate_set R rnd st = line_iter_set R rnd t"
  by (simp add: line_candidate_set_def line_iter_set_def line_sample_def)

text \<open>After \<open>n\<close> iterations the line controller holds the initial values, all consensus
  sets so far being empty, or the size and the refit of the first largest consensus
  set.\<close>

definition line_best :: "RANSAC_line \<Rightarrow> (nat \<Rightarrow> nat) \<Rightarrow> nat \<Rightarrow> line_state \<Rightarrow> bool" where
  "line_best R rnd n st \<longleftrightarrow>
     (bestInLiers st = 0 \<and> bestModel st = LineModel_default \<and>
      (\<forall>u<n. line_iter_set R rnd u = [])) \<or>
     (\<exists>t. first_largest (\<lambda>u. length (line_iter_set R rnd u)) n t \<and>
          line_iter_set R rnd t \<noteq> [] \<and>
          bestInLiers st = int (length (line_iter_set R rnd t)) \<and>
          bestModel st = FitLeastSquares (line_iter_set R rnd t))"

lemma line_body_best:
  assumes body: "line_body R rnd st = Some (Finished (b, s))"
    and calls: "rand_calls st = 2 * n"
    and best: "line_best R rnd n st"
  shows "rand_calls s = 2 * Suc n \<and> line_best R rnd (Suc n) s"
proof -
  let ?sz = "\<lambda>u. length (line_iter_set R rnd u)"
  let ?cs = "line_iter_set R rnd n"
  have cs: "line_candidate_set R rnd st = ?cs" using calls by (rule line_candidate_set_iter)
  from body have s: "s = (if int (length ?cs) > bestInLiers st
                      then st\<lparr>bestInLiers := int (length ?cs), bestModel := FitLeastSquares ?cs,
                              rand_calls := rand_calls st + 2\<rparr>
                      else st\<lparr>rand_calls := rand_calls st + 2\<rparr>)"
    by (auto simp: line_body_unfold cs Let_def split: if_splits)
  have bound: "\<forall>u<n. int (?sz u) \<le> bestInLiers st"
    using best by (auto simp: line_best_def first_largest_def)
  have c: "rand_calls s = 2 * Suc n" using s calls by simp
  have "line_best R rnd (Suc n) s"
  proof (cases "int (length ?cs) > bestInLiers st")
    case True
    with bound have "\<forall>u<n. ?sz u < ?sz n" by fastforce
    then have fl: "first_largest ?sz (Suc n) n" by (rule first_largest_new)
    have "0 \<le> bestInLiers st" using best by (auto simp: line_best_def)
    with True have ne: "?cs \<noteq> []" by auto
    from True s have "bestInLiers s = int (length ?cs)" "bestModel s = FitLeastSquares ?cs"
      by simp_all
    with fl ne show ?thesis unfolding line_best_def by blast
  next
    case False
    then have keep: "bestInLiers s = bestInLiers st" "bestModel s = bestModel st"
      using s by simp_all
    from best show ?thesis unfolding line_best_def
    proof (elim disjE exE conjE)
      assume z: "bestInLiers st = 0" "bestModel st = LineModel_default"
        and e: "\<forall>u<n. line_iter_set R rnd u = []"
      from False z have "?cs = []" by simp
      with e have "\<forall>u<Suc n. line_iter_set R rnd u = []" by (simp add: less_Suc_eq)
      with z keep show "(bestInLiers s = 0 \<and> bestModel s = LineModel_default \<and>
            (\<forall>u<Suc n. line_iter_set R rnd u = [])) \<or>
           (\<exists>t. first_largest ?sz (Suc n) t \<and> line_iter_set R rnd t \<noteq> [] \<and>
              bestInLiers s = int (length (line_iter_set R rnd t)) \<and>
              bestModel s = FitLeastSquares (line_iter_set R rnd t))"
        by simp
    next
      fix t
      assume fl: "first_largest ?sz n t" and ne: "line_iter_set R rnd t \<noteq> []"
        and b: "bestInLiers st = int (length (line_iter_set R rnd t))"
        and m: "bestModel st = FitLeastSquares (line_iter_set R rnd t)"
      from False b have "?sz n \<le> ?sz t" by simp
      with fl have "first_largest ?sz (Suc n) t" by (rule first_largest_old)
      with ne b m keep show "(bestInLiers s = 0 \<and> bestModel s = LineModel_default \<and>
            (\<forall>u<Suc n. line_iter_set R rnd u = [])) \<or>
           (\<exists>t. first_largest ?sz (Suc n) t \<and> line_iter_set R rnd t \<noteq> [] \<and>
              bestInLiers s = int (length (line_iter_set R rnd t)) \<and>
              bestModel s = FitLeastSquares (line_iter_set R rnd t))"
        by auto
    qed
  qed
  with c show ?thesis by simp
qed

text \<open>The number of iterations a loop has performed when it is left with the counter \<open>j\<close>.\<close>

definition iterations_done :: "int \<Rightarrow> bool \<Rightarrow> nat" where
  "iterations_done j brk = nat (if brk then j + 1 else j)"

lemma line_loop_best:
  "line_loop R rnd i st = Some (Finished (j, brk, st')) \<Longrightarrow> 0 \<le> i \<Longrightarrow>
   rand_calls st = 2 * nat i \<Longrightarrow> line_best R rnd (nat i) st \<Longrightarrow>
     line_best R rnd (iterations_done j brk) st'"
proof (induction R rnd i st rule: line_loop.induct)
  case (1 R rnd i st)
  note unf = "1.prems"(1) [unfolded line_loop.simps [of R rnd i st]]
  show ?case
  proof (cases "i < line_max_iterations R")
    case False
    with unf "1.prems"(4) show ?thesis by (simp add: iterations_done_def)
  next
    case True
    with unf obtain b s where body: "line_body R rnd st = Some (Finished (b, s))"
      by (auto split: option.splits outcome.splits)
    from line_body_best [OF body "1.prems"(3,4)] "1.prems"(2)
    have s: "rand_calls s = 2 * nat (i + 1)" "line_best R rnd (nat (i + 1)) s"
      by (simp_all add: nat_add_distrib)
    show ?thesis
    proof (cases b)
      case True
      with unf body \<open>i < line_max_iterations R\<close> s show ?thesis
        by (simp add: iterations_done_def)
    next
      case False
      with unf body \<open>i < line_max_iterations R\<close>
      have next_loop: "line_loop R rnd (i + 1) s = Some (Finished (j, brk, st'))" by simp
      from "1.prems"(2) have "0 \<le> i + 1" by simp
      from "1.IH" [OF \<open>i < line_max_iterations R\<close> body refl refl False next_loop this s]
      show ?thesis .
    qed
  qed
qed


text \<open>The size of the consensus set of iteration \<open>u\<close> of the plane controller; an iteration
  without a candidate counts as \<open>0\<close>.\<close>

definition plane_iter_size :: "RANSAC_plane \<Rightarrow> plane_env \<Rightarrow> nat \<Rightarrow> nat" where
  "plane_iter_size R E u =
     (case plane_candidate_set R E (int u) of None \<Rightarrow> 0 | Some cs \<Rightarrow> length cs)"

text \<open>After \<open>n\<close> iterations the plane controller holds the empty set, all consensus sets
  so far being empty, or the first largest consensus set; the count is the size of the
  set it holds.\<close>

definition plane_best :: "RANSAC_plane \<Rightarrow> plane_env \<Rightarrow> nat \<Rightarrow> plane_state \<Rightarrow> bool" where
  "plane_best R E n st \<longleftrightarrow>
     bestInliersCount st = int (length (bestConsensusSet st)) \<and>
     ((bestConsensusSet st = [] \<and> (\<forall>u<n. plane_iter_size R E u = 0)) \<or>
      (\<exists>t. first_largest (plane_iter_size R E) n t \<and>
           bestConsensusSet st \<noteq> [] \<and>
           plane_candidate_set R E (int t) = Some (bestConsensusSet st)))"

lemma plane_body_best:
  assumes body: "plane_body R E ma (int n) st = (b, s)"
    and best: "plane_best R E n st"
  shows "plane_best R E (Suc n) s"
proof -
  let ?sz = "plane_iter_size R E"
  from best have cnt: "bestInliersCount st = int (length (bestConsensusSet st))"
    by (simp add: plane_best_def)
  have bound: "\<forall>u<n. int (?sz u) \<le> bestInliersCount st"
  proof (intro allI impI)
    fix u assume "u < n"
    from best show "int (?sz u) \<le> bestInliersCount st" unfolding plane_best_def
    proof (elim conjE disjE exE)
      assume "\<forall>u<n. ?sz u = 0"
      with \<open>u < n\<close> cnt show ?thesis by simp
    next
      fix t
      assume fl: "first_largest ?sz n t"
        and t: "plane_candidate_set R E (int t) = Some (bestConsensusSet st)"
      from t have "?sz t = length (bestConsensusSet st)" by (simp add: plane_iter_size_def)
      with fl \<open>u < n\<close> cnt show ?thesis by (simp add: first_largest_def)
    qed
  qed
  show ?thesis
  proof (cases "plane_candidate_set R E (int n)")
    case None
    with body have s: "s = st" by (simp add: plane_body_unfold)
    from None have z: "?sz n = 0" by (simp add: plane_iter_size_def)
    from best show ?thesis unfolding plane_best_def s
    proof (elim conjE disjE exE)
      assume "bestConsensusSet st = []" "\<forall>u<n. ?sz u = 0"
      with z cnt show "bestInliersCount st = int (length (bestConsensusSet st)) \<and>
          ((bestConsensusSet st = [] \<and> (\<forall>u<Suc n. ?sz u = 0)) \<or>
           (\<exists>t. first_largest ?sz (Suc n) t \<and> bestConsensusSet st \<noteq> [] \<and>
                plane_candidate_set R E (int t) = Some (bestConsensusSet st)))"
        by (simp add: less_Suc_eq)
    next
      fix t
      assume fl: "first_largest ?sz n t" and ne: "bestConsensusSet st \<noteq> []"
        and t: "plane_candidate_set R E (int t) = Some (bestConsensusSet st)"
      from z have "?sz n \<le> ?sz t" by simp
      with fl have "first_largest ?sz (Suc n) t" by (rule first_largest_old)
      with ne t cnt show "bestInliersCount st = int (length (bestConsensusSet st)) \<and>
          ((bestConsensusSet st = [] \<and> (\<forall>u<Suc n. ?sz u = 0)) \<or>
           (\<exists>t. first_largest ?sz (Suc n) t \<and> bestConsensusSet st \<noteq> [] \<and>
                plane_candidate_set R E (int t) = Some (bestConsensusSet st)))"
        by blast
    qed
  next
    case (Some cs)
    then have szn: "?sz n = length cs" by (simp add: plane_iter_size_def)
    show ?thesis
    proof (cases "int (length cs) > bestInliersCount st")
      case True
      with body Some have s: "bestInliersCount s = int (length cs)" "bestConsensusSet s = cs"
        by (auto simp: plane_body_unfold)
      from True bound szn have "\<forall>u<n. ?sz u < ?sz n" by fastforce
      then have fl: "first_largest ?sz (Suc n) n" by (rule first_largest_new)
      from True cnt have "cs \<noteq> []" by auto
      with fl s Some show ?thesis unfolding plane_best_def by auto
    next
      case False
      with body Some have s: "bestInliersCount s = bestInliersCount st"
        "bestConsensusSet s = bestConsensusSet st"
        by (auto simp: plane_body_unfold)
      from False cnt szn have le: "?sz n \<le> length (bestConsensusSet st)" by simp
      from best show ?thesis unfolding plane_best_def s
      proof (elim conjE disjE exE)
        assume e: "bestConsensusSet st = []" and a: "\<forall>u<n. ?sz u = 0"
        with le have "?sz n = 0" by simp
        with a e cnt show "bestInliersCount st = int (length (bestConsensusSet st)) \<and>
          ((bestConsensusSet st = [] \<and> (\<forall>u<Suc n. ?sz u = 0)) \<or>
           (\<exists>t. first_largest ?sz (Suc n) t \<and> bestConsensusSet st \<noteq> [] \<and>
                plane_candidate_set R E (int t) = Some (bestConsensusSet st)))"
          by (simp add: less_Suc_eq)
      next
        fix t
        assume fl: "first_largest ?sz n t" and ne: "bestConsensusSet st \<noteq> []"
          and t: "plane_candidate_set R E (int t) = Some (bestConsensusSet st)"
        from t have "?sz t = length (bestConsensusSet st)" by (simp add: plane_iter_size_def)
        with le have "?sz n \<le> ?sz t" by simp
        with fl have "first_largest ?sz (Suc n) t" by (rule first_largest_old)
        with ne t cnt show "bestInliersCount st = int (length (bestConsensusSet st)) \<and>
          ((bestConsensusSet st = [] \<and> (\<forall>u<Suc n. ?sz u = 0)) \<or>
           (\<exists>t. first_largest ?sz (Suc n) t \<and> bestConsensusSet st \<noteq> [] \<and>
                plane_candidate_set R E (int t) = Some (bestConsensusSet st)))"
          by blast
      qed
    qed
  qed
qed

lemma plane_loop_best:
  "plane_loop R E ma i st = (j, brk, st') \<Longrightarrow> 0 \<le> i \<Longrightarrow> plane_best R E (nat i) st \<Longrightarrow>
     plane_best R E (iterations_done j brk) st'"
proof (induction R E ma i st rule: plane_loop.induct)
  case (1 R E ma i st)
  note unf = "1.prems"(1) [unfolded plane_loop.simps [of R E ma i st]]
  show ?case
  proof (cases "i < plane_max_iterations R")
    case False
    with unf "1.prems"(3) show ?thesis by (simp add: iterations_done_def)
  next
    case True
    obtain b s where body: "plane_body R E ma i st = (b, s)" by (cases "plane_body R E ma i st")
    with "1.prems"(2) have "plane_body R E ma (int (nat i)) st = (b, s)" by simp
    from plane_body_best [OF this "1.prems"(3)] "1.prems"(2)
    have s: "plane_best R E (nat (i + 1)) s" by (simp add: nat_add_distrib)
    show ?thesis
    proof (cases b)
      case True
      with unf body \<open>i < plane_max_iterations R\<close> s show ?thesis
        by (simp add: iterations_done_def)
    next
      case False
      with unf body \<open>i < plane_max_iterations R\<close>
      have next_loop: "plane_loop R E ma (i + 1) s = (j, brk, st')" by simp
      from "1.prems"(2) have "0 \<le> i + 1" by simp
      from "1.IH" [OF \<open>i < plane_max_iterations R\<close> body [symmetric] False next_loop this s]
      show ?thesis .
    qed
  qed
qed


lemma line_best_init: "line_best R rnd 0 line_init"
  by (simp add: line_best_def line_init_def)

lemma plane_best_init: "plane_best R E 0 plane_init"
  by (simp add: plane_best_def plane_init_def)

text \<open>
  Claim C2, as amended. Whenever the line controller returns, its model is the one held
  when the loop is left: the output of \<open>FitLeastSquares\<close> on the best consensus set, that
  is the first largest one among the iterations performed, or the default model when
  all of them were empty; that consensus set belongs to the line through two different
  points of the store, and the output is the default model again when the denominator is
  zero. The plane controller returns the output of \<open>fitModel\<close> on the best consensus set
  when the store and that set have at least 3 points and the output is valid, and the
  default model otherwise; with proper shuffles that set belongs to the plane through
  three non-collinear points of the store. No controller returns the model of a minimal
  sample.
\<close>

theorem run_returns_refit_of_best:
  "(line_loop R rnd 0 line_init = Some (Finished (j, brk, st)) \<longrightarrow>
      run_line R rnd = Some (Finished (bestModel st)) \<and>
      line_best R rnd (iterations_done j brk) st) \<and>
   (run_line R rnd = Some (Finished M) \<longrightarrow>
      M = LineModel_default \<or>
      (\<exists>p1 \<in> set (line_data R). \<exists>p2 \<in> set (line_data R). p1 \<noteq> p2 \<and>
         M = FitLeastSquares (consensus_line (line_data R) (line_tolerance R) (LineModel_of p1 p2)))) \<and>
   (plane_loop P E (cpp_div (plane_max_iterations P) 4) 0 plane_init = (pj, pbrk, pst) \<longrightarrow>
      plane_best P E (iterations_done pj pbrk) pst \<and>
      run_plane P E =
        (if 3 \<le> length (plane_data P) \<and> 3 \<le> length (bestConsensusSet pst) \<and>
            isValid (fitModel E (bestConsensusSet pst))
         then fitModel E (bestConsensusSet pst) else PlaneModel_default (junk E))) \<and>
   (valid_shuffles E (length (plane_data P)) \<longrightarrow>
      run_plane P E = PlaneModel_default (junk E) \<or>
      (\<exists>C. plane_candidate P E C \<and> 3 \<le> length (getConsensusSet P C) \<and>
           isValid (fitModel E (getConsensusSet P C)) \<and>
           run_plane P E = fitModel E (getConsensusSet P C)))"
proof (intro conjI impI)
  assume "valid_shuffles E (length (plane_data P))"
  then show "run_plane P E = PlaneModel_default (junk E) \<or>
      (\<exists>C. plane_candidate P E C \<and> 3 \<le> length (getConsensusSet P C) \<and>
           isValid (fitModel E (getConsensusSet P C)) \<and>
           run_plane P E = fitModel E (getConsensusSet P C))"
    by (rule run_plane_cases)
next
  assume run: "run_line R rnd = Some (Finished M)"
  then obtain j brk st where loop: "line_loop R rnd 0 line_init = Some (Finished (j, brk, st))"
    and M: "M = bestModel st"
    by (auto simp: run_line_def split: option.splits outcome.splits)
  have "line_refit_inv R line_init" by (simp add: line_refit_inv_def line_init_def)
  with loop have "line_refit_inv R st" by (rule line_loop_inv)
  with M show "M = LineModel_default \<or>
      (\<exists>p1 \<in> set (line_data R). \<exists>p2 \<in> set (line_data R). p1 \<noteq> p2 \<and>
         M = FitLeastSquares (consensus_line (line_data R) (line_tolerance R) (LineModel_of p1 p2)))"
    unfolding line_refit_inv_def by blast
next
  assume loop: "line_loop R rnd 0 line_init = Some (Finished (j, brk, st))"
  then show "run_line R rnd = Some (Finished (bestModel st))" by (simp add: run_line_def)
  have "rand_calls line_init = 2 * nat 0" by (simp add: line_init_def)
  with loop show "line_best R rnd (iterations_done j brk) st"
    using line_best_init [of R rnd] by (intro line_loop_best [of R rnd 0 line_init]) simp_all
next
  assume loop: "plane_loop P E (cpp_div (plane_max_iterations P) 4) 0 plane_init = (pj, pbrk, pst)"
  then show "plane_best P E (iterations_done pj pbrk) pst"
    using plane_best_init [of P E] by (intro plane_loop_best [of P E _ 0 plane_init]) simp_all
  from loop show "run_plane P E =
        (if 3 \<le> length (plane_data P) \<and> 3 \<le> length (bestConsensusSet pst) \<and>
            isValid (fitModel E (bestConsensusSet pst))
         then fitModel E (bestConsensusSet pst) else PlaneModel_default (junk E))"
    by (auto simp: run_plane_def Let_def)
qed

lemma line_exact_first_set:
  "line_iter_set line_exact id 0 = [(0, 1), (1, 3), (2, 5), (3, 7)]"
  by (simp add: line_iter_set_def line_candidate_set_def line_sample_def line_exact_def
        consensus_line_filter LineModel_of_def computeError_def)

theorem run_returns_refit_of_best_witness:
  "line_loop line_exact id 0 line_init
     = Some (Finished (0, True, \<lparr>bestModel = \<lparr>line_m = 2, line_b = 1\<rparr>, bestInLiers = 4, rand_calls = 2\<rparr>)) \<and>
   run_line line_exact id = Some (Finished \<lparr>line_m = 2, line_b = 1\<rparr>) \<and>
   line_best line_exact id 1 \<lparr>bestModel = \<lparr>line_m = 2, line_b = 1\<rparr>, bestInLiers = 4, rand_calls = 2\<rparr> \<and>
   line_iter_set line_exact id 0 = [(0, 1), (1, 3), (2, 5), (3, 7)] \<and>
   \<lparr>line_m = 2, line_b = 1\<rparr> \<noteq> LineModel_default \<and>
   plane_loop (plane_tri 3) env_tri (cpp_div (plane_max_iterations (plane_tri 3)) 4) 0 plane_init
     = (1, True, tri_found\<lparr>attempts_without_improvement := 1\<rparr>) \<and>
   plane_best (plane_tri 3) env_tri 2 (tri_found\<lparr>attempts_without_improvement := 1\<rparr>) \<and>
   valid_shuffles env_tri (length (plane_data (plane_tri 3))) \<and>
   run_plane (plane_tri 3) env_tri
     = \<lparr>plane_a = 0, plane_b = 0, plane_c = - 1, plane_d = 1, normal = Point3d 0 0 (- 1)\<rparr> \<and>
   run_plane (plane_tri 3) env_tri \<noteq> PlaneModel_default (junk env_tri)"
proof -
  note inst = run_returns_refit_of_best
          [of line_exact id 0 True
              "\<lparr>bestModel = \<lparr>line_m = 2, line_b = 1\<rparr>, bestInLiers = 4, rand_calls = 2\<rparr>"
              "\<lparr>line_m = 2, line_b = 1\<rparr>" "plane_tri 3" env_tri 1 True
              "tri_found\<lparr>attempts_without_improvement := 1\<rparr>"]
  from inst [THEN conjunct1, rule_format, OF line_exact_loop]
  have line: "run_line line_exact id = Some (Finished \<lparr>line_m = 2, line_b = 1\<rparr>)"
    "line_best line_exact id 1 \<lparr>bestModel = \<lparr>line_m = 2, line_b = 1\<rparr>, bestInLiers = 4, rand_calls = 2\<rparr>"
    by (simp_all add: iterations_done_def)
  from inst [THEN conjunct2, THEN conjunct2, THEN conjunct1, rule_format, OF plane_tri_loop_break]
  have plane: "plane_best (plane_tri 3) env_tri 2 (tri_found\<lparr>attempts_without_improvement := 1\<rparr>)"
    by (simp add: iterations_done_def)
  have "\<lparr>line_m = 2, line_b = 1\<rparr> \<noteq> LineModel_default"
    by (simp add: LineModel_default_def)
  moreover have "run_plane (plane_tri 3) env_tri \<noteq> PlaneModel_default (junk env_tri)"
    by (simp add: plane_tri_run PlaneModel_default_def)
  ultimately show ?thesis
    using line plane
    by (simp add: line_exact_loop plane_tri_loop_break env_tri_valid plane_tri_run
          line_exact_first_set)
qed

subsection \<open>The plane refit on examples\<close>

text \<open>The three example points have the centroid \<open>(1/3, 1/3, 1)\<close>; the singular vector
  \<open>(0, 0, 1)\<close> points to its side and is turned around.\<close>

lemma fitModel_example:
  "centroid_of (plane_data (plane_tri 3)) = Point3d (1 / 3) (1 / 3) 1 \<and>
   normal (fitModel env_tri (plane_data (plane_tri 3))) = Point3d 0 0 (- 1) \<and>
   dot (normal (fitModel env_tri (plane_data (plane_tri 3)))) (centroid_of (plane_data (plane_tri 3))) = - 1 \<and>
   isValid (fitModel env_tri (plane_data (plane_tri 3)))"
  using fitModel_unit_oriented [of "plane_data (plane_tri 3)" env_tri]
  by (simp add: plane_tri_def env_tri_def fitModel_unfold centroid_of_def vec_defs
        PlaneModel_of2_def Let_def)



subsection \<open>The best count never decreases\<close>

text \<open>
  Claim C4. In both controllers, an iteration never lowers the best inlier count, and it
  replaces the best model (for the plane controller the best consensus set, from which
  the model is fitted after the loop) only when the consensus set of its candidate is
  strictly larger than the best inlier count before it; over a whole run of the loop the
  count at the end is at least the count at the start.
\<close>

theorem best_count_monotone:
  "(line_body R rnd st = Some (Finished (brk, st')) \<longrightarrow>
      bestInLiers st \<le> bestInLiers st' \<and>
      (bestModel st' \<noteq> bestModel st \<longrightarrow>
         bestInLiers st < int (length (line_candidate_set R rnd st)))) \<and>
   (line_loop R rnd i st = Some (Finished (j, lbrk, lst)) \<longrightarrow> bestInLiers st \<le> bestInLiers lst) \<and>
   (plane_body P E ma k pst = (pbrk, pst') \<longrightarrow>
      bestInliersCount pst \<le> bestInliersCount pst' \<and>
      (bestConsensusSet pst' \<noteq> bestConsensusSet pst \<longrightarrow>
         (\<exists>cs. plane_candidate_set P E k = Some cs \<and> bestInliersCount pst < int (length cs)))) \<and>
   (plane_loop P E ma k pst = (pj, qbrk, qst) \<longrightarrow> bestInliersCount pst \<le> bestInliersCount qst)"
proof (intro conjI impI)
  assume b: "line_body R rnd st = Some (Finished (brk, st'))"
  show "bestInLiers st \<le> bestInLiers st'" using line_body_step(1) [OF b] .
  assume "bestModel st' \<noteq> bestModel st"
  with line_body_step(2) [OF b]
  show "bestInLiers st < int (length (line_candidate_set R rnd st))" by simp
next
  assume "line_loop R rnd i st = Some (Finished (j, lbrk, lst))"
  then show "bestInLiers st \<le> bestInLiers lst" by (rule line_loop_mono)
next
  assume b: "plane_body P E ma k pst = (pbrk, pst')"
  show "bestInliersCount pst \<le> bestInliersCount pst'" using plane_body_step(1) [OF b] .
  assume "bestConsensusSet pst' \<noteq> bestConsensusSet pst"
  with plane_body_step(2) [OF b]
  show "\<exists>cs. plane_candidate_set P E k = Some cs \<and> bestInliersCount pst < int (length cs)"
    by blast
next
  assume "plane_loop P E ma k pst = (pj, qbrk, qst)"
  then show "bestInliersCount pst \<le> bestInliersCount qst" by (rule plane_loop_mono)
qed

theorem best_count_monotone_witness:
  "line_body line_exact id line_init
     = Some (Finished (True, \<lparr>bestModel = \<lparr>line_m = 2, line_b = 1\<rparr>, bestInLiers = 4, rand_calls = 2\<rparr>)) \<and>
   bestModel \<lparr>bestModel = \<lparr>line_m = 2, line_b = 1\<rparr>, bestInLiers = 4, rand_calls = 2\<rparr>
     \<noteq> bestModel line_init \<and>
   bestInLiers line_init < int (length (line_candidate_set line_exact id line_init)) \<and>
   line_loop line_exact id 0 line_init
     = Some (Finished (0, True, \<lparr>bestModel = \<lparr>line_m = 2, line_b = 1\<rparr>, bestInLiers = 4, rand_calls = 2\<rparr>)) \<and>
   plane_body (plane_tri 3) env_tri 0 0 plane_init = (False, tri_found) \<and>
   bestConsensusSet tri_found \<noteq> bestConsensusSet plane_init \<and>
   bestInliersCount plane_init < bestInliersCount tri_found \<and>
   plane_loop (plane_tri 3) env_tri 0 0 plane_init
     = (1, True, tri_found\<lparr>attempts_without_improvement := 1\<rparr>)"
  using best_count_monotone
          [of line_exact id line_init True
              "\<lparr>bestModel = \<lparr>line_m = 2, line_b = 1\<rparr>, bestInLiers = 4, rand_calls = 2\<rparr>"
              0 0 True
              "\<lparr>bestModel = \<lparr>line_m = 2, line_b = 1\<rparr>, bestInLiers = 4, rand_calls = 2\<rparr>"
              "plane_tri 3" env_tri 0 0 plane_init
              False tri_found
              1 True "tri_found\<lparr>attempts_without_improvement := 1\<rparr>"]
        plane_tri_loop_break [unfolded plane_tri_quarter]
  by (simp add: line_exact_body line_exact_loop plane_tri_body_first)
     (simp add: line_init_def LineModel_default_def plane_init_def tri_found_def)

subsection \<open>When the loops are left\<close>

text \<open>With a positive budget \<open>M\<close>, a counter above the truncated quotient \<open>M / 4\<close> is a
  counter above one quarter of \<open>M\<close>.\<close>

lemma quarter_exceeded:
  assumes "0 < M" and "cpp_div M 4 < a"
  shows "M < 4 * a"
proof -
  from assms(1) have "cpp_div M 4 = M div 4" by (simp add: cpp_div_def)
  with assms(2) show ?thesis by linarith
qed

lemma first_largest_restrict:
  assumes "first_largest sz (Suc n) t" and "t < n"
  shows "first_largest sz n t"
  using assms by (auto simp: first_largest_def)

lemma first_largest_last:
  assumes "first_largest sz (Suc n) t" and "\<not> t < n"
  shows "t = n \<and> (\<forall>u<n. sz u < sz n)"
  using assms by (auto simp: first_largest_def less_Suc_eq)

text \<open>After \<open>n\<close> iterations of the plane controller, the counter of iterations without
  improvement is at most \<open>n\<close>, and it counts only iterations after the one that found the
  best consensus set: with \<open>t\<close> the first largest iteration, at most \<open>n - 1 - t\<close>.\<close>

definition plane_stale :: "RANSAC_plane \<Rightarrow> plane_env \<Rightarrow> nat \<Rightarrow> plane_state \<Rightarrow> bool" where
  "plane_stale R E n st \<longleftrightarrow>
     0 \<le> attempts_without_improvement st \<and>
     attempts_without_improvement st \<le> int n \<and>
     (\<forall>t. first_largest (plane_iter_size R E) n t \<and> 0 < plane_iter_size R E t \<longrightarrow>
          attempts_without_improvement st + int t < int n)"

lemma plane_best_bound:
  assumes "plane_best R E n st" and "u < n"
  shows "int (plane_iter_size R E u) \<le> bestInliersCount st"
proof -
  from assms(1) have cnt: "bestInliersCount st = int (length (bestConsensusSet st))"
    by (simp add: plane_best_def)
  from assms(1) show ?thesis unfolding plane_best_def
  proof (elim conjE disjE exE)
    assume "\<forall>u<n. plane_iter_size R E u = 0"
    with \<open>u < n\<close> cnt show ?thesis by simp
  next
    fix t
    assume fl: "first_largest (plane_iter_size R E) n t"
      and t: "plane_candidate_set R E (int t) = Some (bestConsensusSet st)"
    from t have "plane_iter_size R E t = length (bestConsensusSet st)"
      by (simp add: plane_iter_size_def)
    with fl \<open>u < n\<close> cnt show ?thesis by (simp add: first_largest_def)
  qed
qed

lemma plane_body_stale:
  assumes body: "plane_body R E ma (int n) st = (b, s)"
    and best: "plane_best R E n st"
    and stale: "plane_stale R E n st"
  shows "plane_stale R E (Suc n) s"
proof -
  let ?sz = "plane_iter_size R E"
  let ?a = "attempts_without_improvement"
  from stale have a0: "0 \<le> ?a st" and an: "?a st \<le> int n"
    and old: "\<And>t. first_largest ?sz n t \<Longrightarrow> 0 < ?sz t \<Longrightarrow> ?a st + int t < int n"
    by (auto simp: plane_stale_def)
  have improving: "plane_stale R E (Suc n) s" if "?a s = 0"
    using that by (auto simp: plane_stale_def first_largest_def)
  have keeping: "plane_stale R E (Suc n) s"
    if a: "?a s \<le> ?a st + 1" "0 \<le> ?a s" and le: "int (?sz n) \<le> bestInliersCount st"
  proof -
    have "?a s + int t < int (Suc n)" if fl: "first_largest ?sz (Suc n) t" and pos: "0 < ?sz t" for t
    proof (cases "t < n")
      case True
      with fl have "first_largest ?sz n t" by (rule first_largest_restrict)
      from old [OF this pos] a show ?thesis by simp
    next
      case False
      with fl have t: "t = n" and less: "\<forall>u<n. ?sz u < ?sz n" by (auto dest: first_largest_last)
      from best show ?thesis unfolding plane_best_def
      proof (elim conjE disjE exE)
        assume "bestInliersCount st = int (length (bestConsensusSet st))" "bestConsensusSet st = []"
        with le pos t show ?thesis by simp
      next
        fix t'
        assume cnt: "bestInliersCount st = int (length (bestConsensusSet st))"
          and fl': "first_largest ?sz n t'"
          and t': "plane_candidate_set R E (int t') = Some (bestConsensusSet st)"
        from t' have "?sz t' = length (bestConsensusSet st)" by (simp add: plane_iter_size_def)
        with le cnt have "?sz n \<le> ?sz t'" by simp
        moreover from fl' have "t' < n" by (simp add: first_largest_def)
        ultimately show ?thesis using less by fastforce
      qed
    qed
    with a an show ?thesis by (auto simp: plane_stale_def)
  qed
  show ?thesis
  proof (cases "plane_candidate_set R E (int n)")
    case None
    with body have "s = st" by (simp add: plane_body_unfold)
    moreover from None have "?sz n = 0" by (simp add: plane_iter_size_def)
    moreover from best have "0 \<le> bestInliersCount st" by (simp add: plane_best_def)
    ultimately show ?thesis using a0 by (intro keeping) simp_all
  next
    case (Some cs)
    then have szn: "?sz n = length cs" by (simp add: plane_iter_size_def)
    show ?thesis
    proof (cases "int (length cs) > bestInliersCount st")
      case True
      with body Some have "?a s = 0" by (auto simp: plane_body_unfold)
      then show ?thesis by (rule improving)
    next
      case False
      with body Some have "?a s = ?a st + 1" by (auto simp: plane_body_unfold)
      with False szn a0 show ?thesis by (intro keeping) simp_all
    qed
  qed
qed

lemma plane_loop_indexed:
  assumes "plane_loop R E ma i st = (j, brk, st')" and "0 \<le> i" and "Q (nat i) st"
    and "\<And>n st b s. Q n st \<Longrightarrow> plane_body R E ma (int n) st = (b, s) \<Longrightarrow> Q (Suc n) s"
  shows "Q (iterations_done j brk) st'"
  using assms
proof (induction R E ma i st rule: plane_loop.induct)
  case (1 R E ma i st)
  note unf = "1.prems"(1) [unfolded plane_loop.simps [of R E ma i st]]
  show ?case
  proof (cases "i < plane_max_iterations R")
    case False
    with unf "1.prems"(3) show ?thesis by (simp add: iterations_done_def)
  next
    case True
    obtain b s where body: "plane_body R E ma i st = (b, s)" by (cases "plane_body R E ma i st")
    with "1.prems"(2) have "plane_body R E ma (int (nat i)) st = (b, s)" by simp
    from "1.prems"(4) [OF "1.prems"(3) this] "1.prems"(2)
    have s: "Q (nat (i + 1)) s" by (simp add: nat_add_distrib)
    show ?thesis
    proof (cases b)
      case True
      with unf body \<open>i < plane_max_iterations R\<close> s show ?thesis
        by (simp add: iterations_done_def)
    next
      case False
      with unf body \<open>i < plane_max_iterations R\<close>
      have next_loop: "plane_loop R E ma (i + 1) s = (j, brk, st')" by simp
      from "1.prems"(2) have "0 \<le> i + 1" by simp
      show ?thesis
        by (rule "1.IH" [OF \<open>i < plane_max_iterations R\<close> body [symmetric] False next_loop
              \<open>0 \<le> i + 1\<close> s])
           (rule "1.prems"(4))
    qed
  qed
qed

lemma plane_loop_stale:
  assumes "plane_loop R E ma 0 plane_init = (j, brk, st')"
  shows "plane_stale R E (iterations_done j brk) st'"
proof -
  have "plane_best R E (iterations_done j brk) st' \<and> plane_stale R E (iterations_done j brk) st'"
  proof (rule plane_loop_indexed [OF assms])
    show "plane_best R E (nat 0) plane_init \<and> plane_stale R E (nat 0) plane_init"
      by (simp add: plane_best_init) (simp add: plane_stale_def plane_init_def first_largest_def)
  next
    fix n st b s
    assume "plane_best R E n st \<and> plane_stale R E n st" "plane_body R E ma (int n) st = (b, s)"
    then show "plane_best R E (Suc n) s \<and> plane_stale R E (Suc n) s"
      using plane_body_best plane_body_stale by blast
  qed simp
  then show ?thesis by simp
qed


lemma plane_tri_iter_size: "plane_iter_size (plane_tri n) env_tri u = 3"
  by (simp add: plane_iter_size_def plane_tri_candidate_set)

text \<open>
  Claim C7. The plane loop is left through \<^verbatim>\<open>break\<close>, that is before the budget is spent,
  only when the best inlier count has reached \<open>min_consensus\<close> and the counter of
  iterations without improvement is strictly above one quarter of the budget; otherwise it
  runs until the budget is spent. When a run is left through \<^verbatim>\<open>break\<close> after \<open>n\<close>
  iterations, the iterations after the one that found the best consensus set, none of
  which raised the count, number more than one quarter of the budget. Every iteration of
  the line loop that completes ends with \<^verbatim>\<open>break\<close> exactly when the best inlier count has
  reached the threshold, so the line loop is left through \<^verbatim>\<open>break\<close> with the threshold
  reached, or at the end of the budget with the threshold not reached.
\<close>

theorem loop_exit_conditions:
  "(0 \<le> i \<and> plane_loop P E (cpp_div (plane_max_iterations P) 4) i pst = (j, brk, pst') \<longrightarrow>
      (brk \<longrightarrow> j < plane_max_iterations P \<and>
               min_consensus P \<le> bestInliersCount pst' \<and>
               cpp_div (plane_max_iterations P) 4 < attempts_without_improvement pst' \<and>
               plane_max_iterations P < 4 * attempts_without_improvement pst') \<and>
      (\<not> brk \<longrightarrow> plane_max_iterations P \<le> j)) \<and>
   (plane_loop P E (cpp_div (plane_max_iterations P) 4) 0 plane_init = (rj, True, rst) \<longrightarrow>
      plane_max_iterations P < 4 * int (iterations_done rj True) \<and>
      (\<forall>t. first_largest (plane_iter_size P E) (iterations_done rj True) t \<and>
           0 < plane_iter_size P E t \<longrightarrow>
           plane_max_iterations P < 4 * (int (iterations_done rj True) - 1 - int t))) \<and>
   (line_body R rnd st = Some (Finished (b, s)) \<longrightarrow> (b \<longleftrightarrow> line_threshold R \<le> bestInLiers s)) \<and>
   (line_loop R rnd li st = Some (Finished (lj, lbrk, lst)) \<longrightarrow>
      (lbrk \<longrightarrow> lj < line_max_iterations R \<and> line_threshold R \<le> bestInLiers lst) \<and>
      (\<not> lbrk \<longrightarrow> line_max_iterations R \<le> lj \<and>
                   (li < line_max_iterations R \<longrightarrow> bestInLiers lst < line_threshold R)))"
proof (intro conjI impI allI)
  assume "line_body R rnd st = Some (Finished (b, s))"
  then show "b \<longleftrightarrow> line_threshold R \<le> bestInLiers s" by (rule line_body_step(3))
next
  assume l: "line_loop R rnd li st = Some (Finished (lj, lbrk, lst))"
  note ex = line_loop_exit [OF l]
  { assume lbrk
    with ex show "lj < line_max_iterations R" "line_threshold R \<le> bestInLiers lst" by simp_all }
  { assume "\<not> lbrk"
    with ex show "line_max_iterations R \<le> lj" by simp
    assume "li < line_max_iterations R"
    with ex \<open>\<not> lbrk\<close> show "bestInLiers lst < line_threshold R" by simp }
next
  assume p: "0 \<le> i \<and> plane_loop P E (cpp_div (plane_max_iterations P) 4) i pst = (j, brk, pst')"
  then have loop: "plane_loop P E (cpp_div (plane_max_iterations P) 4) i pst = (j, brk, pst')"
    and i: "0 \<le> i" by simp_all
  note ex = plane_loop_exit [OF loop]
  { assume "\<not> brk"
    with ex show "plane_max_iterations P \<le> j" by simp }
  { assume brk
    with ex show j: "j < plane_max_iterations P" and "min_consensus P \<le> bestInliersCount pst'"
      and q: "cpp_div (plane_max_iterations P) 4 < attempts_without_improvement pst'"
      by simp_all
    from ex \<open>brk\<close> i j have "0 < plane_max_iterations P" by simp
    then show "plane_max_iterations P < 4 * attempts_without_improvement pst'"
      using q by (rule quarter_exceeded) }
next
  assume loop: "plane_loop P E (cpp_div (plane_max_iterations P) 4) 0 plane_init = (rj, True, rst)"
  from plane_loop_exit [OF loop]
  have "0 < plane_max_iterations P"
    and "cpp_div (plane_max_iterations P) 4 < attempts_without_improvement rst"
    by simp_all
  then have q: "plane_max_iterations P < 4 * attempts_without_improvement rst"
    by (rule quarter_exceeded)
  note stale = plane_loop_stale [OF loop, unfolded plane_stale_def]
  from stale q show "plane_max_iterations P < 4 * int (iterations_done rj True)" by simp
  fix t
  assume "first_largest (plane_iter_size P E) (iterations_done rj True) t \<and>
          0 < plane_iter_size P E t"
  with stale have "attempts_without_improvement rst + int t < int (iterations_done rj True)"
    by blast
  with q show "plane_max_iterations P < 4 * (int (iterations_done rj True) - 1 - int t)"
    by simp
qed

theorem loop_exit_conditions_witness:
  "plane_loop (plane_tri 3) env_tri (cpp_div (plane_max_iterations (plane_tri 3)) 4) 0 plane_init
     = (1, True, tri_found\<lparr>attempts_without_improvement := 1\<rparr>) \<and>
   1 < plane_max_iterations (plane_tri 3) \<and>
   plane_max_iterations (plane_tri 3)
     < 4 * attempts_without_improvement (tri_found\<lparr>attempts_without_improvement := 1\<rparr>) \<and>
   first_largest (plane_iter_size (plane_tri 3) env_tri) (iterations_done 1 True) 0 \<and>
   0 < plane_iter_size (plane_tri 3) env_tri 0 \<and>
   plane_max_iterations (plane_tri 3) < 4 * (int (iterations_done 1 True) - 1 - int 0) \<and>
   plane_loop (plane_tri 1) env_tri (cpp_div (plane_max_iterations (plane_tri 1)) 4) 0 plane_init
     = (1, False, tri_found) \<and>
   plane_max_iterations (plane_tri 1) \<le> 1 \<and>
   line_body line_exact id line_init
     = Some (Finished (True, \<lparr>bestModel = \<lparr>line_m = 2, line_b = 1\<rparr>, bestInLiers = 4, rand_calls = 2\<rparr>)) \<and>
   line_loop line_exact id 0 line_init
     = Some (Finished (0, True, \<lparr>bestModel = \<lparr>line_m = 2, line_b = 1\<rparr>, bestInLiers = 4, rand_calls = 2\<rparr>)) \<and>
   0 < line_max_iterations line_exact \<and>
   line_threshold line_exact \<le> 4 \<and>
   line_loop line_vertical id 0 line_init
     = Some (Finished (1, False, \<lparr>bestModel = LineModel_default, bestInLiers = 1, rand_calls = 2\<rparr>)) \<and>
   line_max_iterations line_vertical \<le> 1 \<and> 1 < line_threshold line_vertical"
proof -
  have fl: "first_largest (plane_iter_size (plane_tri 3) env_tri) (iterations_done 1 True) 0"
    by (simp add: first_largest_def plane_tri_iter_size iterations_done_def)
  have pos: "0 < plane_iter_size (plane_tri 3) env_tri 0" by (simp add: plane_tri_iter_size)
  note inst = loop_exit_conditions
          [of 0 "plane_tri 3" env_tri plane_init 1 True "tri_found\<lparr>attempts_without_improvement := 1\<rparr>"
              1 "tri_found\<lparr>attempts_without_improvement := 1\<rparr>"
              line_exact id line_init True
              "\<lparr>bestModel = \<lparr>line_m = 2, line_b = 1\<rparr>, bestInLiers = 4, rand_calls = 2\<rparr>"
              0 0 True
              "\<lparr>bestModel = \<lparr>line_m = 2, line_b = 1\<rparr>, bestInLiers = 4, rand_calls = 2\<rparr>"]
  from inst [THEN conjunct2, THEN conjunct1, rule_format, OF plane_tri_loop_break, THEN conjunct2,
             rule_format, of 0] fl pos
  have stall: "plane_max_iterations (plane_tri 3) < 4 * (int (iterations_done 1 True) - 1 - int 0)"
    by blast
  show ?thesis
    using inst fl pos stall
      loop_exit_conditions
          [of 0 "plane_tri 1" env_tri plane_init 1 False tri_found
              0 tri_found
              line_vertical id line_init False
              "\<lparr>bestModel = LineModel_default, bestInLiers = 1, rand_calls = 2\<rparr>"
              0 1 False
              "\<lparr>bestModel = LineModel_default, bestInLiers = 1, rand_calls = 2\<rparr>"]
    by (simp add: plane_tri_loop_break plane_tri_loop_exhaust line_exact_body line_exact_loop
          line_vertical_body line_vertical_loop)
qed

subsection \<open>Too few points, and the same point drawn twice\<close>

text \<open>A store of one point, an empty store, and a store of two different points; a
  \<^verbatim>\<open>rand()\<close> that returns \<open>0, 2, 4, ...\<close>, so that every draw from two points takes the
  first.\<close>

definition line_single :: RANSAC_line where
  "line_single = \<lparr>line_data = [(0, 0)], line_tolerance = 1 / 2,
                   line_max_iterations = 1, line_threshold = 1\<rparr>"

definition line_empty :: RANSAC_line where
  "line_empty = \<lparr>line_data = [], line_tolerance = 1 / 2,
                  line_max_iterations = 1, line_threshold = 1\<rparr>"

definition line_two :: RANSAC_line where
  "line_two = \<lparr>line_data = [(0, 0), (1, 1)], line_tolerance = 1 / 2,
                line_max_iterations = 100, line_threshold = 2\<rparr>"

definition even_rand :: "nat \<Rightarrow> nat" where
  "even_rand k = 2 * k"

text \<open>
  Claim C5 at the inputs where the line controller breaks it. With one point, both draws
  of the first iteration take that point, the resampling loop never ends and \<open>run\<close> never
  returns, whatever \<^verbatim>\<open>rand()\<close> does; with no point, the first draw divides by zero.
\<close>

theorem run_line_too_few_points:
  "run_line line_single rnd = None \<and> run_line line_empty rnd = Some Crash"
proof -
  have "line_body line_single rnd line_init = None"
    by (simp add: line_body_unfold line_single_def line_sample_def)
  moreover have "line_body line_empty rnd line_init = Some Crash"
    by (simp add: line_body_unfold line_empty_def)
  moreover have "line_max_iterations line_single = 1" "line_max_iterations line_empty = 1"
    by (simp_all add: line_single_def line_empty_def)
  ultimately show ?thesis
    by (simp add: run_line_def line_loop.simps [of _ _ 0])
qed

text \<open>
  Claim C6 at an input where the line controller breaks it. The store holds two
  different points, both draws of the first iteration take the first of them, and the
  resampling loop never ends: \<open>run\<close> never returns.
\<close>

theorem run_line_same_index_diverges:
  "(0, 0) \<in> set (line_data line_two) \<and> (1, 1) \<in> set (line_data line_two) \<and>
   run_line line_two even_rand = None"
proof -
  have len: "length (line_data line_two) = 2" by (simp add: line_two_def)
  then have ne: "line_data line_two \<noteq> []" by auto
  have even: "even_rand k mod 2 = 0" for k by (simp add: even_rand_def)
  have "line_sample line_two even_rand line_init = (line_data line_two ! 0, line_data line_two ! 0)"
    by (simp add: line_sample_def len even)
  with ne have "line_body line_two even_rand line_init = None"
    by (simp add: line_body_unfold)
  moreover have "line_max_iterations line_two = 100" by (simp add: line_two_def)
  ultimately have "run_line line_two even_rand = None"
    by (simp add: run_line_def line_loop.simps [of _ _ 0])
  then show ?thesis by (simp add: line_two_def)
qed

text \<open>The plane controller has the test that the line controller lacks: with fewer than
  three points it returns at once, and what it returns is \<^verbatim>\<open>PlaneModel()\<close>, with all four
  coefficients zero.\<close>

lemma run_plane_too_few_points:
  "length (plane_data R) < 3 \<Longrightarrow> run_plane R E = PlaneModel_default (junk E)"
  by (simp add: run_plane_def)

end
